theory Spec2Isabelle
  imports Main "HOL-Library.Word" "HOL-Library.Signed_Division"
begin

section \<open>Flash write command handlers of the flasher stub\<close>

text \<open>
  A shallow embedding of \<^verbatim>\<open>src/flasher_stub/stub_write_flash.c\<close>. The file keeps one
  static structure \<^verbatim>\<open>fs\<close>, two static locals of \<^verbatim>\<open>handle_flash_deflated_data\<close>
  (\<^verbatim>\<open>out_buf\<close>, \<^verbatim>\<open>next_out\<close>) and talks to the SPI controller and to the miniz
  inflator. All of that is one explicit state record here, passed through every handler.
  Unsigned 32-bit values are \<open>32 word\<close>; the two \<^verbatim>\<open>int\<close> fields are \<open>32 word\<close> too and are
  read through \<open>sint\<close> wherever the C code compares or takes a remainder of them.
\<close>

type_synonym u32 = "32 word"
type_synonym int32 = "32 word"
type_synonym byte = "8 word"

subsection \<open>Declarations that live in headers\<close>

text \<open>
  Modelled from the spec: the enumeration \<^verbatim>\<open>esp_command_error\<close> is declared in
  \<^verbatim>\<open>stub_flasher.h\<close>, which is not among the sources. These are the seven values this
  file uses; the spec (section 7) lists them as distinct error kinds.
\<close>

datatype esp_command_error =
    ESP_OK
  | ESP_FAILED_SPI_OP
  | ESP_FAILED_SPI_UNLOCK
  | ESP_NOT_IN_FLASH_MODE
  | ESP_INFLATE_ERROR
  | ESP_NOT_ENOUGH_DATA
  | ESP_TOO_MUCH_DATA

text \<open>The two erase opcodes written to the SPI command register.\<close>

datatype spi_command = SPI_FLASH_SE | SPI_FLASH_BE

datatype tinfl_flag = TINFL_FLAG_PARSE_ZLIB_HEADER | TINFL_FLAG_HAS_MORE_INPUT

text \<open>
  What one call of \<^verbatim>\<open>tinfl_decompress\<close> hands back: its status, the two in/out size
  arguments as it leaves them (input bytes consumed, output bytes produced), the inflator
  structure and the output buffer it wrote into.
\<close>

record 'i tinfl_result =
  tr_status :: int
  tr_in_bytes :: u32
  tr_out_bytes :: u32
  tr_inflator :: 'i
  tr_out_buf :: "byte list"

text \<open>
  Everything the file takes from outside, as parameters: the macros
  \<^verbatim>\<open>FLASH_SECTOR_SIZE\<close> and \<^verbatim>\<open>SECTORS_PER_BLOCK\<close> (plain positive \<^verbatim>\<open>int\<close> constants
  in the headers), the two miniz status constants the code compares against, and the
  collaborators: the ROM routines \<^verbatim>\<open>SPIUnlock\<close> and \<^verbatim>\<open>SPIWrite\<close> (their return value;
  the k-th call of \<^verbatim>\<open>SPIWrite\<close> returns \<open>SPIWrite k\<close>), the write-in-progress bit seen by
  the k-th status poll (\<open>flash_idle k\<close> holds when the bit is clear) and the inflator.
  The type \<open>'i\<close> is the opaque \<^verbatim>\<open>tinfl_decompressor\<close>.
\<close>

record 'i target =
  FLASH_SECTOR_SIZE :: u32
  SECTORS_PER_BLOCK :: u32
  TINFL_STATUS_DONE :: int
  TINFL_STATUS_NEEDS_MORE_INPUT :: int
  SPIUnlock :: u32
  SPIWrite :: "nat \<Rightarrow> u32"
  flash_idle :: "nat \<Rightarrow> bool"
  tinfl_init :: 'i
  tinfl_decompress ::
    "'i \<Rightarrow> byte list \<Rightarrow> u32 \<Rightarrow> byte list \<Rightarrow> u32 \<Rightarrow> u32 \<Rightarrow> tinfl_flag set \<Rightarrow> 'i tinfl_result"

text \<open>
  The constants are well formed when both are positive as \<^verbatim>\<open>int\<close> and the sector size
  is at least 4 bytes, so that a sector count of a 32-bit byte range fits an \<^verbatim>\<open>int\<close>
  with room to add two of them.
\<close>

definition target_ok :: "'i target \<Rightarrow> bool" where
  "target_ok tgt \<longleftrightarrow> 4 \<le> sint (FLASH_SECTOR_SIZE tgt) \<and> 0 < sint (SECTORS_PER_BLOCK tgt)"

subsection \<open>The state\<close>

text \<open>
  One erase command as issued: the opcode, the value written to the SPI address register,
  and the values of \<^verbatim>\<open>fs.next_erase_sector\<close> and \<^verbatim>\<open>sectors_to_erase\<close> at that moment.
\<close>

record erase_op =
  eo_command :: spi_command
  eo_addr :: u32
  eo_sector :: int
  eo_count :: int

record 'i flasher =
  in_flash_mode :: bool
  next_write :: u32
  next_erase_sector :: int32
  remaining :: u32
  remaining_erase_sector :: int32
  last_error :: esp_command_error
  inflator :: 'i
  remaining_compressed :: u32
  out_buf :: "byte list"
  next_out :: u32
  status_polls :: nat
  erase_log :: "erase_op list"
  write_log :: "(u32 \<times> byte list \<times> u32) list"

text \<open>
  \<open>out_buf\<close> and \<open>next_out\<close> are the static locals of \<^verbatim>\<open>handle_flash_deflated_data\<close>;
  \<open>next_out\<close> is the offset \<^verbatim>\<open>next_out - out_buf\<close>. The last three fields are the
  hardware side: how many status polls were made, the erase commands issued and the
  \<^verbatim>\<open>SPIWrite\<close> calls made (address, bytes, length), oldest first.
\<close>

subsection \<open>Queries and begin\<close>

definition is_in_flash_mode :: "'i flasher \<Rightarrow> bool" where
  "is_in_flash_mode s = in_flash_mode s"

definition get_flash_error :: "'i flasher \<Rightarrow> esp_command_error" where
  "get_flash_error s = last_error s"

definition handle_flash_begin ::
  "'i target \<Rightarrow> u32 \<Rightarrow> u32 \<Rightarrow> 'i flasher \<Rightarrow> esp_command_error \<times> 'i flasher" where
  "handle_flash_begin tgt total_size offset s =
     (let s1 = s\<lparr> in_flash_mode := True,
                  next_write := offset,
                  next_erase_sector := offset div FLASH_SECTOR_SIZE tgt,
                  remaining := total_size,
                  remaining_erase_sector :=
                    (total_size + FLASH_SECTOR_SIZE tgt - 1) div FLASH_SECTOR_SIZE tgt,
                  last_error := ESP_OK \<rparr>
      in if SPIUnlock tgt \<noteq> 0 then (ESP_FAILED_SPI_UNLOCK, s1) else (ESP_OK, s1))"

definition handle_flash_deflated_begin ::
  "'i target \<Rightarrow> u32 \<Rightarrow> u32 \<Rightarrow> u32 \<Rightarrow> 'i flasher \<Rightarrow> esp_command_error \<times> 'i flasher" where
  "handle_flash_deflated_begin tgt uncompressed_size compressed_size offset s =
     (case handle_flash_begin tgt uncompressed_size offset s of
        (err, s1) \<Rightarrow>
          (err, s1\<lparr> inflator := tinfl_init tgt, remaining_compressed := compressed_size \<rparr>))"

subsection \<open>The erase scheduler\<close>

text \<open>
  \<^verbatim>\<open>spiflash_is_ready\<close> waits for the SPI state machine, issues a read-status command and
  returns whether the write-in-progress bit is clear. Its two waits are on the controller
  finishing a command it was just given; they are taken to end.
\<close>

definition spiflash_is_ready :: "'i target \<Rightarrow> 'i flasher \<Rightarrow> bool \<times> 'i flasher" where
  "spiflash_is_ready tgt s =
     (flash_idle tgt (status_polls s), s\<lparr> status_polls := Suc (status_polls s) \<rparr>)"

definition start_next_erase :: "'i target \<Rightarrow> 'i flasher \<Rightarrow> 'i flasher" where
  "start_next_erase tgt s =
     (if remaining_erase_sector s = 0 then s
      else case spiflash_is_ready tgt s of
        (ready, s1) \<Rightarrow>
          if \<not> ready then s1
          else
            let (command, sectors_to_erase) =
                  (if sint (SECTORS_PER_BLOCK tgt) \<le> sint (remaining_erase_sector s1)
                      \<and> sint (next_erase_sector s1) smod sint (SECTORS_PER_BLOCK tgt) = 0
                   then (SPI_FLASH_BE, SECTORS_PER_BLOCK tgt)
                   else (SPI_FLASH_SE, 1));
                addr = next_erase_sector s1 * FLASH_SECTOR_SIZE tgt
            in s1\<lparr> erase_log := erase_log s1 @
                       [\<lparr> eo_command = command, eo_addr = and addr 0xffffff,
                          eo_sector = sint (next_erase_sector s1),
                          eo_count = sint sectors_to_erase \<rparr>],
                     remaining_erase_sector := remaining_erase_sector s1 - sectors_to_erase,
                     next_erase_sector := next_erase_sector s1 + sectors_to_erase \<rparr>)"

subsection \<open>Writing a block of data\<close>

text \<open>
  The loop \<^verbatim>\<open>while(fs.next_erase_sector < last_sector) start_next_erase();\<close>. Nothing in
  it bounds the number of rounds, so it is a partial function: \<open>None\<close> is the loop that
  never ends.
\<close>

partial_function (option) erase_ahead :: "'i target \<Rightarrow> int32 \<Rightarrow> 'i flasher \<Rightarrow> 'i flasher option" where
  "erase_ahead tgt last_sector s =
     (if sint (next_erase_sector s) < sint last_sector
      then erase_ahead tgt last_sector (start_next_erase tgt s)
      else Some s)"

definition handle_flash_data :: "'i target \<Rightarrow> byte list \<Rightarrow> u32 \<Rightarrow> 'i flasher \<Rightarrow> 'i flasher option" where
  "handle_flash_data tgt data_buf len s =
     (let last_sector =
            (next_write s + len + FLASH_SECTOR_SIZE tgt - 1) div FLASH_SECTOR_SIZE tgt
      in case erase_ahead tgt last_sector s of
           None \<Rightarrow> None
         | Some s1 \<Rightarrow>
             let failed = (SPIWrite tgt (length (write_log s1)) \<noteq> 0);
                 s2 = s1\<lparr> write_log := write_log s1 @
                            [(next_write s1, take (unat len) data_buf, len)] \<rparr>;
                 s3 = (if failed then s2\<lparr> last_error := ESP_FAILED_SPI_OP \<rparr> else s2)
             in Some (s3\<lparr> next_write := next_write s3 + len,
                          remaining := remaining s3 - len \<rparr>))"

subsection \<open>Writing a block of compressed data\<close>

text \<open>
  One round of the \<^verbatim>\<open>while\<close> loop of \<^verbatim>\<open>handle_flash_deflated_data\<close>: the loop
  body, from the locals \<^verbatim>\<open>data_buf\<close> and \<^verbatim>\<open>length\<close> and the state to their values
  after the round and the status \<^verbatim>\<open>tinfl_decompress\<close> returned. The buffer has 32768
  bytes. The round does not return when the flush it makes does not.
\<close>

definition inflate_round ::
  "'i target \<Rightarrow> byte list \<Rightarrow> u32 \<Rightarrow> 'i flasher \<Rightarrow> (byte list \<times> u32 \<times> int \<times> 'i flasher) option" where
  "inflate_round tgt data_buf len s =
     (let in_bytes = len;
          out_bytes = 32768 - next_out s;
          flags = {TINFL_FLAG_PARSE_ZLIB_HEADER} \<union>
                  (if len < remaining_compressed s then {TINFL_FLAG_HAS_MORE_INPUT} else {});
          s1 = start_next_erase tgt s;
          r = tinfl_decompress tgt (inflator s1) data_buf in_bytes
                (out_buf s1) (next_out s1) out_bytes flags;
          s2 = s1\<lparr> inflator := tr_inflator r,
                   out_buf := tr_out_buf r,
                   remaining_compressed := remaining_compressed s1 - tr_in_bytes r,
                   next_out := next_out s1 + tr_out_bytes r \<rparr>;
          len1 = len - tr_in_bytes r;
          data_buf1 = drop (unat (tr_in_bytes r)) data_buf;
          bytes_in_out_buf = next_out s2
      in if tr_status r \<le> TINFL_STATUS_DONE tgt \<or> bytes_in_out_buf = 32768 then
           case handle_flash_data tgt (out_buf s2) bytes_in_out_buf s2 of
             None \<Rightarrow> None
           | Some s3 \<Rightarrow> Some (data_buf1, len1, tr_status r, s3\<lparr> next_out := 0 \<rparr>)
         else Some (data_buf1, len1, tr_status r, s2))"

text \<open>
  The loop itself, with the locals \<^verbatim>\<open>data_buf\<close>, \<^verbatim>\<open>length\<close> and \<^verbatim>\<open>status\<close> as
  arguments; it returns the status it stopped with.
\<close>

partial_function (option) inflate_loop ::
  "'i target \<Rightarrow> byte list \<Rightarrow> u32 \<Rightarrow> int \<Rightarrow> 'i flasher \<Rightarrow> (int \<times> 'i flasher) option" where
  "inflate_loop tgt data_buf len status s =
     (if 0 < len \<and> 0 < remaining s \<and> TINFL_STATUS_DONE tgt < status then
        Option.bind (inflate_round tgt data_buf len s)
          (\<lambda>(data_buf1, len1, status1, s1). inflate_loop tgt data_buf1 len1 status1 s1)
      else Some (status, s))"

text \<open>The three checks after the loop.\<close>

definition inflate_status_check :: "'i target \<Rightarrow> int \<Rightarrow> 'i flasher \<Rightarrow> 'i flasher" where
  "inflate_status_check tgt status s =
     (let s1 = (if status < TINFL_STATUS_DONE tgt
                then s\<lparr> last_error := ESP_INFLATE_ERROR \<rparr> else s);
          s2 = (if status = TINFL_STATUS_DONE tgt \<and> 0 < remaining s1
                then s1\<lparr> last_error := ESP_NOT_ENOUGH_DATA \<rparr> else s1)
      in if status \<noteq> TINFL_STATUS_DONE tgt \<and> remaining s2 = 0
         then s2\<lparr> last_error := ESP_TOO_MUCH_DATA \<rparr> else s2)"

definition handle_flash_deflated_data ::
  "'i target \<Rightarrow> byte list \<Rightarrow> u32 \<Rightarrow> 'i flasher \<Rightarrow> 'i flasher option" where
  "handle_flash_deflated_data tgt data_buf len s =
     (case inflate_loop tgt data_buf len (TINFL_STATUS_NEEDS_MORE_INPUT tgt) s of
        None \<Rightarrow> None
      | Some (status, s1) \<Rightarrow> Some (inflate_status_check tgt status s1))"

subsection \<open>End\<close>

definition handle_flash_end :: "'i flasher \<Rightarrow> esp_command_error \<times> 'i flasher" where
  "handle_flash_end s =
     (if \<not> in_flash_mode s then (ESP_NOT_IN_FLASH_MODE, s)
      else if 0 < remaining s then (ESP_NOT_ENOUGH_DATA, s)
      else (last_error s, s\<lparr> in_flash_mode := False \<rparr>))"

declare erase_ahead.simps [code]
declare inflate_loop.simps [code]

subsection \<open>A simulated target\<close>

text \<open>
  A target to run the handlers on: 4096-byte sectors, 8 sectors to a block, miniz's status
  values, ROM routines that succeed and a flash chip that is idle at every poll. Its
  inflator is a stand-in that copies input to output (a stream of stored bytes): it
  consumes and produces as many bytes as fit, asks for output space when input is left
  over, for more input when the caller announced some, and is done otherwise. Its state
  counts the bytes it has copied.
\<close>

definition copy_decompress ::
  "nat \<Rightarrow> byte list \<Rightarrow> u32 \<Rightarrow> byte list \<Rightarrow> u32 \<Rightarrow> u32 \<Rightarrow> tinfl_flag set \<Rightarrow> nat tinfl_result" where
  "copy_decompress r in_buf in_bytes obuf onext out_bytes flags =
     (let n = min (unat in_bytes) (unat out_bytes)
      in \<lparr> tr_status = (if n < unat in_bytes then 2
                        else if TINFL_FLAG_HAS_MORE_INPUT \<in> flags then 1 else 0),
           tr_in_bytes = of_nat n, tr_out_bytes = of_nat n, tr_inflator = r + n,
           tr_out_buf = take (unat onext) obuf @ take n in_buf @ drop (unat onext + n) obuf \<rparr>)"

definition demo_target :: "nat target" where
  "demo_target = \<lparr> FLASH_SECTOR_SIZE = 4096, SECTORS_PER_BLOCK = 8,
     TINFL_STATUS_DONE = 0, TINFL_STATUS_NEEDS_MORE_INPUT = 1,
     SPIUnlock = 0, SPIWrite = (\<lambda>k. 0), flash_idle = (\<lambda>k. True),
     tinfl_init = 0, tinfl_decompress = copy_decompress \<rparr>"

text \<open>The state when the stub starts: zeroed statics, \<^verbatim>\<open>next_out = out_buf\<close>.\<close>

definition power_on :: "nat flasher" where
  "power_on = \<lparr> in_flash_mode = False, next_write = 0, next_erase_sector = 0, remaining = 0,
     remaining_erase_sector = 0, last_error = ESP_OK, inflator = 0, remaining_compressed = 0,
     out_buf = replicate 32768 0, next_out = 0, status_polls = 0, erase_log = [],
     write_log = [] \<rparr>"

subsection \<open>Reading the erase log\<close>

text \<open>The sector indices one erase command covers, from the cursor it was issued at.\<close>

definition erased_sectors :: "erase_op \<Rightarrow> int list" where
  "erased_sectors op = [eo_sector op .. eo_sector op + eo_count op - 1]"

text \<open>
  The bookkeeping of a session that started erasing at sector \<open>a\<close> with the sectors up
  to \<open>e\<close> (exclusive) still to go, when the log held the entries \<open>old\<close>: the count left
  is not negative, cursor plus count is \<open>e\<close>, the old entries are still there, and the
  commands logged since cover exactly the sectors from \<open>a\<close> up to the cursor, in order.
\<close>

definition erase_window :: "int \<Rightarrow> int \<Rightarrow> erase_op list \<Rightarrow> 'i flasher \<Rightarrow> bool" where
  "erase_window a e old s \<longleftrightarrow>
     0 \<le> sint (remaining_erase_sector s) \<and> a \<le> sint (next_erase_sector s)
     \<and> sint (next_erase_sector s) + sint (remaining_erase_sector s) = e
     \<and> length old \<le> length (erase_log s)
     \<and> take (length old) (erase_log s) = old
     \<and> concat (map erased_sectors (drop (length old) (erase_log s)))
         = [a .. sint (next_erase_sector s) - 1]"

subsection \<open>Sessions\<close>

text \<open>
  The states a session can pass through after its begin left it in \<open>s0\<close>: any number of
  scheduler invocations, data calls and compressed data calls that return, and end calls,
  in any order.
\<close>

inductive in_session :: "'i target \<Rightarrow> 'i flasher \<Rightarrow> 'i flasher \<Rightarrow> bool"
  for tgt :: "'i target" and s0 :: "'i flasher" where
    begun: "in_session tgt s0 s0"
  | erase: "in_session tgt s0 s \<Longrightarrow> in_session tgt s0 (start_next_erase tgt s)"
  | data: "in_session tgt s0 s \<Longrightarrow> handle_flash_data tgt data_buf len s = Some s'
           \<Longrightarrow> in_session tgt s0 s'"
  | deflated_data:
      "in_session tgt s0 s \<Longrightarrow> handle_flash_deflated_data tgt data_buf len s = Some s'
       \<Longrightarrow> in_session tgt s0 s'"
  | ended: "in_session tgt s0 s \<Longrightarrow> in_session tgt s0 (snd (handle_flash_end s))"

text \<open>
  A run of data calls, one per chunk (buffer and length), each starting where the one
  before returned; the run returns when every call does.
\<close>

fun flash_data_calls :: "'i target \<Rightarrow> (byte list \<times> u32) list \<Rightarrow> 'i flasher \<Rightarrow> 'i flasher option" where
  "flash_data_calls tgt [] s = Some s"
| "flash_data_calls tgt ((data_buf, len) # chunks) s =
     (case handle_flash_data tgt data_buf len s of
        None \<Rightarrow> None
      | Some s1 \<Rightarrow> flash_data_calls tgt chunks s1)"

text \<open>
  A property of the state that every step of the two data paths keeps: the scheduler
  keeps it, and so does every assignment those paths make to a field, where an assignment
  to \<^verbatim>\<open>last_error\<close> only ever stores an error.
\<close>

definition kept_by_data_path :: "'i target \<Rightarrow> ('i flasher \<Rightarrow> bool) \<Rightarrow> bool" where
  "kept_by_data_path tgt P \<longleftrightarrow>
     (\<forall>s. P s \<longrightarrow> P (start_next_erase tgt s))
     \<and> (\<forall>s v. P s \<longrightarrow> P (s\<lparr> write_log := v \<rparr>))
     \<and> (\<forall>s e. e \<noteq> ESP_OK \<longrightarrow> P s \<longrightarrow> P (s\<lparr> last_error := e \<rparr>))
     \<and> (\<forall>s v. P s \<longrightarrow> P (s\<lparr> next_write := v \<rparr>))
     \<and> (\<forall>s v. P s \<longrightarrow> P (s\<lparr> remaining := v \<rparr>))
     \<and> (\<forall>s v. P s \<longrightarrow> P (s\<lparr> inflator := v \<rparr>))
     \<and> (\<forall>s v. P s \<longrightarrow> P (s\<lparr> out_buf := v \<rparr>))
     \<and> (\<forall>s v. P s \<longrightarrow> P (s\<lparr> remaining_compressed := v \<rparr>))
     \<and> (\<forall>s v. P s \<longrightarrow> P (s\<lparr> next_out := v \<rparr>))"

lemmas demo_defs = demo_target_def power_on_def handle_flash_begin_def

section \<open>End of a session\<close>

text \<open>
  C1, the claim as stated fails: \<^verbatim>\<open>handle_flash_end\<close> does not always close the session.
  After \<^verbatim>\<open>begin(10000, 0)\<close> and no data, end returns the not-enough-data error and the
  session is still in flash mode.
\<close>

theorem end_keeps_unfinished_session_open:
  "fst (handle_flash_end (snd (handle_flash_begin demo_target 10000 0 power_on)))
     = ESP_NOT_ENOUGH_DATA
   \<and> is_in_flash_mode (snd (handle_flash_begin demo_target 10000 0 power_on))
   \<and> is_in_flash_mode
        (snd (handle_flash_end (snd (handle_flash_begin demo_target 10000 0 power_on))))"
  by (simp add: handle_flash_end_def is_in_flash_mode_def demo_defs)

text \<open>
  C1, amended: for every state, end outside flash mode returns the not-in-flash-mode error
  and changes nothing; end in flash mode with bytes remaining returns the not-enough-data
  error and changes nothing, so the session stays open; end in flash mode with no bytes
  remaining returns the stored last error and clears the flash-mode flag, leaving all else
  as it was. The session is still open after end exactly when it was open with bytes
  remaining.
\<close>

theorem handle_flash_end_outcome:
  "(\<not> is_in_flash_mode s \<longrightarrow>
      fst (handle_flash_end s) = ESP_NOT_IN_FLASH_MODE \<and> snd (handle_flash_end s) = s)
   \<and> (is_in_flash_mode s \<and> 0 < remaining s \<longrightarrow>
      fst (handle_flash_end s) = ESP_NOT_ENOUGH_DATA \<and> snd (handle_flash_end s) = s)
   \<and> (is_in_flash_mode s \<and> remaining s = 0 \<longrightarrow>
      fst (handle_flash_end s) = last_error s
      \<and> snd (handle_flash_end s) = s\<lparr> in_flash_mode := False \<rparr>)
   \<and> (is_in_flash_mode (snd (handle_flash_end s)) \<longleftrightarrow> is_in_flash_mode s \<and> 0 < remaining s)"
  by (simp add: handle_flash_end_def is_in_flash_mode_def word_greater_zero_iff)

theorem handle_flash_end_outcome_witness:
  "fst (handle_flash_end power_on) = ESP_NOT_IN_FLASH_MODE
   \<and> fst (handle_flash_end (snd (handle_flash_begin demo_target 10000 0 power_on)))
       = ESP_NOT_ENOUGH_DATA
   \<and> fst (handle_flash_end (snd (handle_flash_begin demo_target 0 0 power_on))) = ESP_OK
   \<and> \<not> is_in_flash_mode
         (snd (handle_flash_end (snd (handle_flash_begin demo_target 0 0 power_on))))"
proof -
  let ?a = "snd (handle_flash_begin demo_target 10000 0 power_on)"
  let ?b = "snd (handle_flash_begin demo_target 0 0 power_on)"
  have 1: "\<not> is_in_flash_mode power_on"
    by (simp add: is_in_flash_mode_def power_on_def)
  have 2: "is_in_flash_mode ?a \<and> 0 < remaining ?a"
    by (simp add: is_in_flash_mode_def demo_defs)
  have 3: "is_in_flash_mode ?b \<and> remaining ?b = 0 \<and> last_error ?b = ESP_OK"
    by (simp add: is_in_flash_mode_def demo_defs)
  show ?thesis
    using 1 2 3 handle_flash_end_outcome [of power_on] handle_flash_end_outcome [of ?a]
      handle_flash_end_outcome [of ?b]
    by (simp add: is_in_flash_mode_def)
qed

section \<open>Begin\<close>

subsection \<open>Signed and unsigned readings of a 32-bit value\<close>

lemma sint_of_small: "uint (w::32 word) < 2147483648 \<Longrightarrow> sint w = uint w"
proof -
  assume a: "uint w < 2147483648"
  have "- (2 ^ 31) \<le> uint w" by (rule order_trans [of _ 0]) simp_all
  moreover have "uint w < 2 ^ 31" using a by simp
  ultimately have "signed_take_bit 31 (uint w) = uint w"
    by (rule signed_take_bit_int_eq_self)
  then show ?thesis by (simp add: sint_uint)
qed

lemma sint_nonneg_uint:
  assumes "0 \<le> sint (w::32 word)"
  shows "sint w = uint w"
proof -
  have lt: "sint w < 2 ^ 31" using sint_lt [of w] by simp
  have "uint w = take_bit 32 (sint w)" using uint_sint [of w] by simp
  also have "\<dots> = sint w"
    using assms lt by (simp add: take_bit_int_eq_self)
  finally show ?thesis by simp
qed

lemma sint_upper: "sint (w::32 word) < 2147483648"
  using sint_lt [of w] by simp

lemma sint_lower: "- 2147483648 \<le> sint (w::32 word)"
  using sint_ge [of w] by simp

lemma uint_upper: "uint (w::32 word) < 4294967296"
  using uint_bounded [of w] by simp

lemma sint_add_exact:
  "- 2147483648 \<le> sint (a::32 word) + sint b \<Longrightarrow> sint a + sint b < 2147483648
   \<Longrightarrow> sint (a + b) = sint a + sint b"
  by (simp add: sint_word_add signed_take_bit_int_eq_self)

lemma sint_diff_exact:
  "- 2147483648 \<le> sint (a::32 word) - sint b \<Longrightarrow> sint a - sint b < 2147483648
   \<Longrightarrow> sint (a - b) = sint a - sint b"
  by (simp add: sint_word_diff signed_take_bit_int_eq_self)

lemma target_ok_sector_size:
  assumes "target_ok tgt"
  shows "4 \<le> uint (FLASH_SECTOR_SIZE tgt)"
    and "sint (FLASH_SECTOR_SIZE tgt) = uint (FLASH_SECTOR_SIZE tgt)"
proof -
  have nn: "0 \<le> sint (FLASH_SECTOR_SIZE tgt)" using assms by (simp add: target_ok_def)
  show 3: "sint (FLASH_SECTOR_SIZE tgt) = uint (FLASH_SECTOR_SIZE tgt)"
    by (rule sint_nonneg_uint [OF nn])
  show "4 \<le> uint (FLASH_SECTOR_SIZE tgt)" using assms 3 by (simp add: target_ok_def)
qed

text \<open>A byte count divided by the sector size is below \<open>2^30\<close>, so it is the same number as an \<^verbatim>\<open>int\<close>.\<close>

lemma div_sector_fits:
  assumes "4 \<le> uint (ss::32 word)"
  shows "uint ((w::32 word) div ss) < 1073741824"
    and "sint (w div ss) = uint w div uint ss"
proof -
  have 1: "uint (w div ss) = uint w div uint ss" by (rule uint_div_distrib)
  have "uint w div uint ss \<le> uint w div 4"
    using assms by (intro zdiv_mono2) simp_all
  also have "\<dots> < 1073741824" using uint_upper [of w] by simp
  finally show 2: "uint (w div ss) < 1073741824" using 1 by simp
  then have "uint (w div ss) < 2147483648" by simp
  then show "sint (w div ss) = uint w div uint ss"
    using 1 by (simp add: sint_of_small)
qed

lemma ceil_count_exact:
  assumes ss: "4 \<le> uint (ss::32 word)"
    and fit: "uint (n::32 word) + uint ss - 1 < 4294967296"
  shows "sint ((n + ss - 1) div ss) = (uint n + uint ss - 1) div uint ss"
proof -
  have "uint (n + ss - 1) = (uint n + uint ss - 1) mod 4294967296"
    by (simp add: uint_word_ariths mod_simps take_bit_eq_mod)
  also have "\<dots> = uint n + uint ss - 1"
  proof (rule mod_pos_pos_trivial)
    have "0 \<le> uint n" by simp
    with ss show "0 \<le> uint n + uint ss - 1" by linarith
    show "uint n + uint ss - 1 < 4294967296" by (rule fit)
  qed
  finally show ?thesis
    using div_sector_fits(2) [OF ss, of "n + ss - 1"] by simp
qed

text \<open>\<open>(a + b - 1) div b\<close> is the quotient rounded up: the least multiple of \<open>b\<close> that covers \<open>a\<close>.\<close>

lemma ceil_div_int:
  assumes "0 < (b::int)"
  shows "a \<le> ((a + b - 1) div b) * b" and "((a + b - 1) div b) * b < a + b"
proof -
  have e: "(a + b - 1) = ((a + b - 1) div b) * b + (a + b - 1) mod b" by simp
  have "0 \<le> (a + b - 1) mod b" "(a + b - 1) mod b < b" using assms by simp_all
  with e show "a \<le> ((a + b - 1) div b) * b" "((a + b - 1) div b) * b < a + b" by linarith+
qed

subsection \<open>What begin sets\<close>

text \<open>
  C2, the claim as stated fails for sizes within one sector of \<open>2^32\<close>: the sum
  \<^verbatim>\<open>total_size + FLASH_SECTOR_SIZE - 1\<close> is computed in 32 bits and wraps. With 4096-byte
  sectors, \<^verbatim>\<open>begin(0xFFFFFFFF, 0)\<close> leaves 0 sectors to erase, where the size rounded up
  is 1048576 sectors.
\<close>

theorem begin_wraps_sector_count:
  "sint (remaining_erase_sector (snd (handle_flash_begin demo_target 0xFFFFFFFF 0 power_on))) = 0
   \<and> (uint (0xFFFFFFFF :: u32) + uint (FLASH_SECTOR_SIZE demo_target) - 1)
        div uint (FLASH_SECTOR_SIZE demo_target) = 1048576"
  by (simp add: demo_defs)

text \<open>
  C2, amended: for every offset and every total size with
  \<open>total_size + sector_size - 1 < 2^32\<close>, after begin the write cursor is the offset, the
  erase cursor is the offset divided by the sector size rounded down, the bytes remaining
  are the total size, the sectors remaining are the total size divided by the sector size
  rounded up, the last error is OK and the session is in flash mode. Begin returns the
  unlock-failure error when \<^verbatim>\<open>SPIUnlock\<close> returns non-zero and OK otherwise; the state is
  the same in both cases.
\<close>

theorem handle_flash_begin_resets:
  assumes ok: "target_ok tgt"
    and fit: "uint total_size + uint (FLASH_SECTOR_SIZE tgt) - 1 < 4294967296"
    and run: "handle_flash_begin tgt total_size offset s = (err, s')"
  shows "next_write s' = offset
    \<and> sint (next_erase_sector s') = uint offset div uint (FLASH_SECTOR_SIZE tgt)
    \<and> remaining s' = total_size
    \<and> sint (remaining_erase_sector s')
        = (uint total_size + uint (FLASH_SECTOR_SIZE tgt) - 1) div uint (FLASH_SECTOR_SIZE tgt)
    \<and> uint total_size \<le> sint (remaining_erase_sector s') * uint (FLASH_SECTOR_SIZE tgt)
    \<and> sint (remaining_erase_sector s') * uint (FLASH_SECTOR_SIZE tgt)
        < uint total_size + uint (FLASH_SECTOR_SIZE tgt)
    \<and> get_flash_error s' = ESP_OK
    \<and> is_in_flash_mode s'
    \<and> err = (if SPIUnlock tgt \<noteq> 0 then ESP_FAILED_SPI_UNLOCK else ESP_OK)"
proof -
  let ?ss = "FLASH_SECTOR_SIZE tgt"
  have ss: "4 \<le> uint ?ss" by (rule target_ok_sector_size(1) [OF ok])
  have s': "s' = s\<lparr> in_flash_mode := True, next_write := offset,
                     next_erase_sector := offset div ?ss, remaining := total_size,
                     remaining_erase_sector := (total_size + ?ss - 1) div ?ss,
                     last_error := ESP_OK \<rparr>"
    and err: "err = (if SPIUnlock tgt \<noteq> 0 then ESP_FAILED_SPI_UNLOCK else ESP_OK)"
    using run by (auto simp: handle_flash_begin_def Let_def split: if_splits)
  have cur: "sint (next_erase_sector s') = uint offset div uint ?ss"
    using div_sector_fits(2) [OF ss, of offset] by (simp add: s')
  have cnt: "sint (remaining_erase_sector s') = (uint total_size + uint ?ss - 1) div uint ?ss"
    using ceil_count_exact [OF ss fit] by (simp add: s')
  have pos: "0 < uint ?ss" using ss by simp
  show ?thesis
    using cur cnt err ceil_div_int [OF pos, of "uint total_size"]
    by (simp add: s' get_flash_error_def is_in_flash_mode_def)
qed

theorem handle_flash_begin_resets_witness:
  "sint (remaining_erase_sector (snd (handle_flash_begin demo_target 10000 8192 power_on))) = 3
   \<and> sint (next_erase_sector (snd (handle_flash_begin demo_target 10000 8192 power_on))) = 2
   \<and> is_in_flash_mode
        (snd (handle_flash_begin (demo_target\<lparr> SPIUnlock := 1 \<rparr>) 10000 8192 power_on))
   \<and> fst (handle_flash_begin (demo_target\<lparr> SPIUnlock := 1 \<rparr>) 10000 8192 power_on)
       = ESP_FAILED_SPI_UNLOCK"
proof -
  have ok: "target_ok demo_target" "target_ok (demo_target\<lparr> SPIUnlock := 1 \<rparr>)"
    by (simp_all add: target_ok_def demo_target_def)
  have fit: "uint (10000::u32) + uint (FLASH_SECTOR_SIZE demo_target) - 1 < 4294967296"
    "uint (10000::u32) + uint (FLASH_SECTOR_SIZE (demo_target\<lparr> SPIUnlock := 1 \<rparr>)) - 1
       < 4294967296"
    by (simp_all add: demo_target_def)
  show ?thesis
    using handle_flash_begin_resets [OF ok(1) fit(1) surjective_pairing, of 8192 power_on]
      handle_flash_begin_resets [OF ok(2) fit(2) surjective_pairing, of 8192 power_on]
    by (simp add: demo_target_def)
qed

section \<open>The erase scheduler\<close>

subsection \<open>The four outcomes of one invocation\<close>

lemma smod_eq_0_iff_dvd: "(k::int) smod l = 0 \<longleftrightarrow> l dvd k"
proof -
  have "k smod l = 0 \<longleftrightarrow> \<bar>k\<bar> mod \<bar>l\<bar> = 0"
    by (auto simp: signed_modulo_int_def sgn_0_0)
  also have "\<dots> \<longleftrightarrow> \<bar>l\<bar> dvd \<bar>k\<bar>" by (simp add: dvd_eq_mod_eq_0)
  also have "\<dots> \<longleftrightarrow> l dvd k" by simp
  finally show ?thesis .
qed

lemma start_next_erase_nothing_left:
  "remaining_erase_sector s = 0 \<Longrightarrow> start_next_erase tgt s = s"
  by (simp add: start_next_erase_def)

lemma start_next_erase_busy:
  "remaining_erase_sector s \<noteq> 0 \<Longrightarrow> \<not> flash_idle tgt (status_polls s)
   \<Longrightarrow> start_next_erase tgt s = s\<lparr> status_polls := Suc (status_polls s) \<rparr>"
  by (simp add: start_next_erase_def spiflash_is_ready_def)

lemma start_next_erase_block:
  "remaining_erase_sector s \<noteq> 0 \<Longrightarrow> flash_idle tgt (status_polls s)
   \<Longrightarrow> sint (SECTORS_PER_BLOCK tgt) \<le> sint (remaining_erase_sector s)
   \<Longrightarrow> sint (SECTORS_PER_BLOCK tgt) dvd sint (next_erase_sector s)
   \<Longrightarrow> start_next_erase tgt s =
        s\<lparr> status_polls := Suc (status_polls s),
           erase_log := erase_log s @
             [\<lparr> eo_command = SPI_FLASH_BE,
                eo_addr = and (next_erase_sector s * FLASH_SECTOR_SIZE tgt) 0xffffff,
                eo_sector = sint (next_erase_sector s),
                eo_count = sint (SECTORS_PER_BLOCK tgt) \<rparr>],
           remaining_erase_sector := remaining_erase_sector s - SECTORS_PER_BLOCK tgt,
           next_erase_sector := next_erase_sector s + SECTORS_PER_BLOCK tgt \<rparr>"
  by (simp add: start_next_erase_def spiflash_is_ready_def smod_eq_0_iff_dvd)

lemma start_next_erase_sector:
  "remaining_erase_sector s \<noteq> 0 \<Longrightarrow> flash_idle tgt (status_polls s)
   \<Longrightarrow> \<not> (sint (SECTORS_PER_BLOCK tgt) \<le> sint (remaining_erase_sector s)
          \<and> sint (SECTORS_PER_BLOCK tgt) dvd sint (next_erase_sector s))
   \<Longrightarrow> start_next_erase tgt s =
        s\<lparr> status_polls := Suc (status_polls s),
           erase_log := erase_log s @
             [\<lparr> eo_command = SPI_FLASH_SE,
                eo_addr = and (next_erase_sector s * FLASH_SECTOR_SIZE tgt) 0xffffff,
                eo_sector = sint (next_erase_sector s),
                eo_count = 1 \<rparr>],
           remaining_erase_sector := remaining_erase_sector s - 1,
           next_erase_sector := next_erase_sector s + 1 \<rparr>"
  by (auto simp add: start_next_erase_def spiflash_is_ready_def smod_eq_0_iff_dvd)

lemma erase_step_exact:
  assumes "0 \<le> sint (nxt::32 word)" "0 < sint (rem::32 word)"
    and "sint nxt + sint rem < 2147483648"
    and "0 < sint (n::32 word)" "sint n \<le> sint rem"
  shows "sint (nxt + n) = sint nxt + sint n"
    and "sint (rem - n) = sint rem - sint n"
    and "0 \<le> sint rem - sint n"
proof -
  show "sint (nxt + n) = sint nxt + sint n"
    using assms by (intro sint_add_exact) linarith+
  show "sint (rem - n) = sint rem - sint n"
    using assms sint_upper [of rem] by (intro sint_diff_exact) linarith+
  show "0 \<le> sint rem - sint n" using assms by simp
qed

text \<open>
  C5: an invocation with no sectors left changes nothing, and one that finds the flash
  busy only makes its status poll: no session field changes and no erase command is
  issued. An invocation that erases issues exactly one command at the erase cursor: a
  block erase of \<^verbatim>\<open>SECTORS_PER_BLOCK\<close> sectors if and only if at least that many sectors
  remain and the cursor is a multiple of \<^verbatim>\<open>SECTORS_PER_BLOCK\<close>, a single-sector erase
  otherwise; the cursor goes up and the count left goes down by the sectors erased (as
  32-bit values always, and as integers whenever cursor and count are in the range a
  session keeps them in).
\<close>

theorem start_next_erase_unit:
  assumes ok: "target_ok tgt"
  shows "(remaining_erase_sector s = 0 \<longrightarrow> start_next_erase tgt s = s)
   \<and> (remaining_erase_sector s \<noteq> 0 \<and> \<not> flash_idle tgt (status_polls s) \<longrightarrow>
        start_next_erase tgt s = s\<lparr> status_polls := Suc (status_polls s) \<rparr>)
   \<and> (remaining_erase_sector s \<noteq> 0 \<and> flash_idle tgt (status_polls s) \<longrightarrow>
        (\<exists>op n. erase_log (start_next_erase tgt s) = erase_log s @ [op]
           \<and> eo_sector op = sint (next_erase_sector s)
           \<and> eo_count op = sint n
           \<and> (eo_command op = SPI_FLASH_BE \<longleftrightarrow>
                sint (SECTORS_PER_BLOCK tgt) \<le> sint (remaining_erase_sector s)
                \<and> sint (SECTORS_PER_BLOCK tgt) dvd sint (next_erase_sector s))
           \<and> n = (if eo_command op = SPI_FLASH_BE then SECTORS_PER_BLOCK tgt else 1)
           \<and> next_erase_sector (start_next_erase tgt s) = next_erase_sector s + n
           \<and> remaining_erase_sector (start_next_erase tgt s) = remaining_erase_sector s - n
           \<and> (0 \<le> sint (next_erase_sector s) \<and> 0 < sint (remaining_erase_sector s)
                \<and> sint (next_erase_sector s) + sint (remaining_erase_sector s) < 2147483648
              \<longrightarrow> sint (next_erase_sector (start_next_erase tgt s))
                     = sint (next_erase_sector s) + sint n
                  \<and> sint (remaining_erase_sector (start_next_erase tgt s))
                     = sint (remaining_erase_sector s) - sint n
                  \<and> 0 \<le> sint (remaining_erase_sector (start_next_erase tgt s)))))"
proof (intro conjI impI)
  show "remaining_erase_sector s = 0 \<Longrightarrow> start_next_erase tgt s = s"
    by (rule start_next_erase_nothing_left)
  show "remaining_erase_sector s \<noteq> 0 \<and> \<not> flash_idle tgt (status_polls s)
        \<Longrightarrow> start_next_erase tgt s = s\<lparr> status_polls := Suc (status_polls s) \<rparr>"
    by (simp add: start_next_erase_busy)
next
  let ?spb = "SECTORS_PER_BLOCK tgt"
  let ?s' = "start_next_erase tgt s"
  assume a: "remaining_erase_sector s \<noteq> 0 \<and> flash_idle tgt (status_polls s)"
  have spb: "0 < sint ?spb" using ok by (simp add: target_ok_def)
  show "\<exists>op n. erase_log ?s' = erase_log s @ [op]
           \<and> eo_sector op = sint (next_erase_sector s)
           \<and> eo_count op = sint n
           \<and> (eo_command op = SPI_FLASH_BE \<longleftrightarrow>
                sint ?spb \<le> sint (remaining_erase_sector s)
                \<and> sint ?spb dvd sint (next_erase_sector s))
           \<and> n = (if eo_command op = SPI_FLASH_BE then ?spb else 1)
           \<and> next_erase_sector ?s' = next_erase_sector s + n
           \<and> remaining_erase_sector ?s' = remaining_erase_sector s - n
           \<and> (0 \<le> sint (next_erase_sector s) \<and> 0 < sint (remaining_erase_sector s)
                \<and> sint (next_erase_sector s) + sint (remaining_erase_sector s) < 2147483648
              \<longrightarrow> sint (next_erase_sector ?s') = sint (next_erase_sector s) + sint n
                  \<and> sint (remaining_erase_sector ?s') = sint (remaining_erase_sector s) - sint n
                  \<and> 0 \<le> sint (remaining_erase_sector ?s'))"
  proof (cases "sint ?spb \<le> sint (remaining_erase_sector s)
                \<and> sint ?spb dvd sint (next_erase_sector s)")
    case True
    have e: "?s' = s\<lparr> status_polls := Suc (status_polls s),
           erase_log := erase_log s @
             [\<lparr> eo_command = SPI_FLASH_BE,
                eo_addr = and (next_erase_sector s * FLASH_SECTOR_SIZE tgt) 0xffffff,
                eo_sector = sint (next_erase_sector s),
                eo_count = sint ?spb \<rparr>],
           remaining_erase_sector := remaining_erase_sector s - ?spb,
           next_erase_sector := next_erase_sector s + ?spb \<rparr>"
      using a True by (intro start_next_erase_block) simp_all
    show ?thesis
      apply (rule exI [of _ "\<lparr> eo_command = SPI_FLASH_BE,
                eo_addr = and (next_erase_sector s * FLASH_SECTOR_SIZE tgt) 0xffffff,
                eo_sector = sint (next_erase_sector s),
                eo_count = sint ?spb \<rparr>"])
      apply (rule exI [of _ ?spb])
      using True spb erase_step_exact [of "next_erase_sector s" "remaining_erase_sector s" ?spb]
      apply (simp add: e)
      done
  next
    case False
    have e: "?s' = s\<lparr> status_polls := Suc (status_polls s),
           erase_log := erase_log s @
             [\<lparr> eo_command = SPI_FLASH_SE,
                eo_addr = and (next_erase_sector s * FLASH_SECTOR_SIZE tgt) 0xffffff,
                eo_sector = sint (next_erase_sector s),
                eo_count = 1 \<rparr>],
           remaining_erase_sector := remaining_erase_sector s - 1,
           next_erase_sector := next_erase_sector s + 1 \<rparr>"
      using a False by (intro start_next_erase_sector) simp_all
    show ?thesis
      apply (rule exI [of _ "\<lparr> eo_command = SPI_FLASH_SE,
                eo_addr = and (next_erase_sector s * FLASH_SECTOR_SIZE tgt) 0xffffff,
                eo_sector = sint (next_erase_sector s),
                eo_count = 1 \<rparr>"])
      apply (rule exI [of _ 1])
      using False erase_step_exact [of "next_erase_sector s" "remaining_erase_sector s" 1]
      apply (simp add: e)
      done
  qed
qed

theorem start_next_erase_unit_witness:
  "target_ok demo_target
   \<and> start_next_erase demo_target power_on = power_on
   \<and> next_erase_sector (start_next_erase demo_target
        (snd (handle_flash_begin demo_target 65536 0 power_on))) = 8
   \<and> remaining_erase_sector (start_next_erase demo_target
        (snd (handle_flash_begin demo_target 65536 0 power_on))) = 8
   \<and> next_erase_sector (start_next_erase demo_target
        (snd (handle_flash_begin demo_target 10000 0 power_on))) = 1
   \<and> remaining_erase_sector (start_next_erase demo_target
        (snd (handle_flash_begin demo_target 10000 0 power_on))) = 2
   \<and> start_next_erase (demo_target\<lparr> flash_idle := (\<lambda>k. False) \<rparr>)
        (snd (handle_flash_begin demo_target 10000 0 power_on))
      = snd (handle_flash_begin demo_target 10000 0 power_on) \<lparr> status_polls := 1 \<rparr>"
proof -
  let ?a = "snd (handle_flash_begin demo_target 65536 0 power_on)"
  let ?b = "snd (handle_flash_begin demo_target 10000 0 power_on)"
  let ?busy = "demo_target\<lparr> flash_idle := (\<lambda>k. False) \<rparr>"
  have ok: "target_ok demo_target" "target_ok ?busy"
    by (simp_all add: target_ok_def demo_target_def)
  have 0: "remaining_erase_sector power_on = 0" by (simp add: power_on_def)
  have a: "remaining_erase_sector ?a = 16" "next_erase_sector ?a = 0"
    "flash_idle demo_target (status_polls ?a)" "SECTORS_PER_BLOCK demo_target = 8"
    by (simp_all add: demo_defs)
  have b: "remaining_erase_sector ?b = 3" "next_erase_sector ?b = 0"
    "flash_idle demo_target (status_polls ?b)" "\<not> flash_idle ?busy (status_polls ?b)"
    "status_polls ?b = 0"
    by (simp_all add: demo_defs)
  have 1: "start_next_erase demo_target power_on = power_on"
    using start_next_erase_unit [OF ok(1), of power_on] 0 by simp
  have 2: "next_erase_sector (start_next_erase demo_target ?a) = 8
           \<and> remaining_erase_sector (start_next_erase demo_target ?a) = 8"
    using start_next_erase_unit [OF ok(1), of ?a] a by auto
  have 3: "next_erase_sector (start_next_erase demo_target ?b) = 1
           \<and> remaining_erase_sector (start_next_erase demo_target ?b) = 2"
    using start_next_erase_unit [OF ok(1), of ?b] a(4) b by auto
  have 4: "start_next_erase ?busy ?b = ?b\<lparr> status_polls := 1 \<rparr>"
    using start_next_erase_unit [OF ok(2), of ?b] b by simp
  show ?thesis using ok(1) 1 2 3 4 by simp
qed

subsection \<open>The scheduler keeps the session's erase window\<close>

lemma erase_window_step:
  assumes ok: "target_ok tgt" and e: "e < 2147483648" and a: "0 \<le> a"
    and inv: "erase_window a e old s"
  shows "erase_window a e old (start_next_erase tgt s)"
proof -
  let ?spb = "SECTORS_PER_BLOCK tgt"
  let ?nxt = "next_erase_sector s" and ?rem = "remaining_erase_sector s"
  have spb: "0 < sint ?spb" using ok by (simp add: target_ok_def)
  have i: "0 \<le> sint ?rem" "a \<le> sint ?nxt" "sint ?nxt + sint ?rem = e"
    "length old \<le> length (erase_log s)" "take (length old) (erase_log s) = old"
    "concat (map erased_sectors (drop (length old) (erase_log s))) = [a .. sint ?nxt - 1]"
    using inv by (simp_all add: erase_window_def)
  consider (none) "?rem = 0" | (busy) "?rem \<noteq> 0" "\<not> flash_idle tgt (status_polls s)"
    | (block) "?rem \<noteq> 0" "flash_idle tgt (status_polls s)"
        "sint ?spb \<le> sint ?rem \<and> sint ?spb dvd sint ?nxt"
    | (sector) "?rem \<noteq> 0" "flash_idle tgt (status_polls s)"
        "\<not> (sint ?spb \<le> sint ?rem \<and> sint ?spb dvd sint ?nxt)"
    by blast
  then show ?thesis
  proof cases
    case none
    then show ?thesis using inv by (simp add: start_next_erase_nothing_left)
  next
    case busy
    then show ?thesis using inv by (simp add: start_next_erase_busy erase_window_def)
  next
    case block
    have pos: "0 < sint ?rem" using block(3) spb by linarith
    have x: "sint (?nxt + ?spb) = sint ?nxt + sint ?spb"
      "sint (?rem - ?spb) = sint ?rem - sint ?spb" "0 \<le> sint ?rem - sint ?spb"
      using erase_step_exact [of ?nxt ?rem ?spb] i a e pos spb block(3) by simp_all
    have u: "[a .. sint ?nxt + sint ?spb - 1]
             = [a .. sint ?nxt - 1] @ [sint ?nxt .. sint ?nxt + sint ?spb - 1]"
      using i(2) spb by (intro upto_split1) simp_all
    show ?thesis
      using i x u spb block(3)
      by (simp add: start_next_erase_block [OF block(1,2)] erase_window_def
          erased_sectors_def)
  next
    case sector
    have pos: "0 < sint ?rem"
      using i(1) sector(1) by (metis order_less_le signed_eq_0_iff)
    have x: "sint (?nxt + 1) = sint ?nxt + 1" "sint (?rem - 1) = sint ?rem - 1"
      "0 \<le> sint ?rem - 1"
      using erase_step_exact [of ?nxt ?rem 1] i a e pos by simp_all
    have u: "[a .. sint ?nxt] = [a .. sint ?nxt - 1] @ [sint ?nxt]"
      using i(2) by (intro upto_rec2) simp_all
    show ?thesis
      using i x u
      by (simp add: start_next_erase_sector [OF sector] erase_window_def erased_sectors_def)
  qed
qed

section \<open>Properties kept along the data paths\<close>

text \<open>
  Both loops are partial functions; what holds of a result they return is proved by
  fixed-point induction over the loop.
\<close>

lemma erase_ahead_preserves:
  assumes step: "\<And>s. P s \<Longrightarrow> P (start_next_erase tgt s)"
    and run: "erase_ahead tgt last_sector s = Some s'"
    and init: "P s"
  shows "P s'"
proof -
  have "t = tgt \<longrightarrow> P s \<longrightarrow> P s'"
    if "erase_ahead t last_sector s = Some s'" for t
    using that
  proof (rule erase_ahead.raw_induct [rotated, where P = "\<lambda>t l a b. t = tgt \<longrightarrow> P a \<longrightarrow> P b"])
    fix f t l a b
    assume ih: "\<And>t l a b. f t l a = Some b \<Longrightarrow> t = tgt \<longrightarrow> P a \<longrightarrow> P b"
      and body: "(if sint (next_erase_sector a) < sint l
                  then f t l (start_next_erase t a) else Some a) = Some b"
    show "t = tgt \<longrightarrow> P a \<longrightarrow> P b"
    proof (cases "sint (next_erase_sector a) < sint l")
      case True
      with body have "f t l (start_next_erase t a) = Some b" by simp
      from ih [OF this] step show ?thesis by auto
    next
      case False
      with body show ?thesis by auto
    qed
  qed
  with run init show ?thesis by blast
qed

lemma handle_flash_data_Some:
  "handle_flash_data tgt data_buf len s = Some s' \<longleftrightarrow>
     (\<exists>s1. erase_ahead tgt
             ((next_write s + len + FLASH_SECTOR_SIZE tgt - 1) div FLASH_SECTOR_SIZE tgt) s
           = Some s1
        \<and> s' = s1\<lparr> write_log := write_log s1 @
                       [(next_write s1, take (unat len) data_buf, len)],
                    last_error := (if SPIWrite tgt (length (write_log s1)) \<noteq> 0
                                   then ESP_FAILED_SPI_OP else last_error s1),
                    next_write := next_write s1 + len,
                    remaining := remaining s1 - len \<rparr>)"
  by (auto simp: handle_flash_data_def Let_def split: option.splits)

lemma kept_by_data_pathD:
  assumes "kept_by_data_path tgt P" and "P s"
  shows "P (start_next_erase tgt s)"
    and "P (s\<lparr> write_log := wl \<rparr>)"
    and "e \<noteq> ESP_OK \<Longrightarrow> P (s\<lparr> last_error := e \<rparr>)"
    and "P (s\<lparr> next_write := nw \<rparr>)"
    and "P (s\<lparr> remaining := r \<rparr>)"
    and "P (s\<lparr> inflator := i \<rparr>)"
    and "P (s\<lparr> out_buf := ob \<rparr>)"
    and "P (s\<lparr> remaining_compressed := rc \<rparr>)"
    and "P (s\<lparr> next_out := no \<rparr>)"
  using assms unfolding kept_by_data_path_def by metis+

lemma handle_flash_data_keeps:
  assumes k: "kept_by_data_path tgt P"
    and run: "handle_flash_data tgt data_buf len s = Some s'"
    and init: "P s"
  shows "P s'"
proof -
  from run obtain s1 where
    1: "erase_ahead tgt
          ((next_write s + len + FLASH_SECTOR_SIZE tgt - 1) div FLASH_SECTOR_SIZE tgt) s
        = Some s1"
    and s': "s' = s1\<lparr> write_log := write_log s1 @
                       [(next_write s1, take (unat len) data_buf, len)],
                    last_error := (if SPIWrite tgt (length (write_log s1)) \<noteq> 0
                                   then ESP_FAILED_SPI_OP else last_error s1),
                    next_write := next_write s1 + len,
                    remaining := remaining s1 - len \<rparr>"
    unfolding handle_flash_data_Some by blast
  have p1: "P s1"
    by (rule erase_ahead_preserves [where P = P, OF _ 1 init])
      (rule kept_by_data_pathD(1) [OF k])
  let ?s2 = "s1\<lparr> write_log := write_log s1 @
                       [(next_write s1, take (unat len) data_buf, len)] \<rparr>"
  have a: "P ?s2" by (rule kept_by_data_pathD(2) [OF k p1])
  let ?s3 = "?s2\<lparr> last_error := (if SPIWrite tgt (length (write_log s1)) \<noteq> 0
                                   then ESP_FAILED_SPI_OP else last_error s1) \<rparr>"
  have b: "P ?s3"
  proof (cases "SPIWrite tgt (length (write_log s1)) \<noteq> 0")
    case True
    have "P (?s2\<lparr> last_error := ESP_FAILED_SPI_OP \<rparr>)"
      by (rule kept_by_data_pathD(3) [OF k a]) simp
    with True show ?thesis by simp
  next
    case False
    then show ?thesis using a by simp
  qed
  have "P (?s3\<lparr> next_write := next_write s1 + len \<rparr>)" (is "P ?s4")
    by (rule kept_by_data_pathD(4) [OF k b])
  then have "P (?s4\<lparr> remaining := remaining s1 - len \<rparr>)"
    by (rule kept_by_data_pathD(5) [OF k])
  then show ?thesis by (simp add: s')
qed

lemma inflate_round_keeps:
  assumes k: "kept_by_data_path tgt P"
    and run: "inflate_round tgt data_buf len s = Some (data_buf1, len1, status1, s')"
    and init: "P s"
  shows "P s'"
proof -
  define s1 where "s1 = start_next_erase tgt s"
  define r where "r = tinfl_decompress tgt (inflator s1) data_buf len (out_buf s1) (next_out s1)
                (32768 - next_out s)
                ({TINFL_FLAG_PARSE_ZLIB_HEADER} \<union>
                   (if len < remaining_compressed s then {TINFL_FLAG_HAS_MORE_INPUT} else {}))"
  define s2 where "s2 = s1\<lparr> inflator := tr_inflator r, out_buf := tr_out_buf r,
                    remaining_compressed := remaining_compressed s1 - tr_in_bytes r,
                    next_out := next_out s1 + tr_out_bytes r \<rparr>"
  have p1: "P s1" unfolding s1_def by (rule kept_by_data_pathD(1) [OF k init])
  have p2: "P s2"
  proof -
    have "P (s1\<lparr> inflator := tr_inflator r \<rparr>)" (is "P ?x1")
      by (rule kept_by_data_pathD(6) [OF k p1])
    then have "P (?x1\<lparr> out_buf := tr_out_buf r \<rparr>)" (is "P ?x2")
      by (rule kept_by_data_pathD(7) [OF k])
    then have "P (?x2\<lparr> remaining_compressed := remaining_compressed s1 - tr_in_bytes r \<rparr>)"
      (is "P ?x3")
      by (rule kept_by_data_pathD(8) [OF k])
    then have "P (?x3\<lparr> next_out := next_out s1 + tr_out_bytes r \<rparr>)"
      by (rule kept_by_data_pathD(9) [OF k])
    then show ?thesis by (simp add: s2_def)
  qed
  have run': "(if tr_status r \<le> TINFL_STATUS_DONE tgt \<or> next_out s2 = 32768 then
           case handle_flash_data tgt (out_buf s2) (next_out s2) s2 of
             None \<Rightarrow> None
           | Some s3 \<Rightarrow> Some (drop (unat (tr_in_bytes r)) data_buf, len - tr_in_bytes r,
                              tr_status r, s3\<lparr> next_out := 0 \<rparr>)
         else Some (drop (unat (tr_in_bytes r)) data_buf, len - tr_in_bytes r,
                    tr_status r, s2)) = Some (data_buf1, len1, status1, s')"
    using run unfolding inflate_round_def Let_def s2_def r_def s1_def .
  show ?thesis
  proof (cases "tr_status r \<le> TINFL_STATUS_DONE tgt \<or> next_out s2 = 32768")
    case True
    with run' obtain s3 where
      h: "handle_flash_data tgt (out_buf s2) (next_out s2) s2 = Some s3"
      and s': "s' = s3\<lparr> next_out := 0 \<rparr>"
      by (cases "handle_flash_data tgt (out_buf s2) (next_out s2) s2") auto
    have "P s3" by (rule handle_flash_data_keeps [OF k h p2])
    then show ?thesis unfolding s' by (rule kept_by_data_pathD(9) [OF k])
  next
    case False
    with run' have "s' = s2" by simp
    with p2 show ?thesis by simp
  qed
qed

lemma inflate_loop_keeps:
  fixes tgt :: "'i target"
  assumes k: "kept_by_data_path tgt P"
    and run: "inflate_loop tgt data_buf len status s = Some (status', s')"
    and init: "P s"
  shows "P s'"
proof -
  have "t = tgt \<longrightarrow> P s \<longrightarrow> P (snd r)"
    if "inflate_loop t data_buf len status s = Some r" for t r
    using that
  proof (rule inflate_loop.raw_induct
      [rotated, where P = "\<lambda>t d l st a r. t = tgt \<longrightarrow> P a \<longrightarrow> P (snd r)"])
    fix f :: "'i target \<Rightarrow> byte list \<Rightarrow> u32 \<Rightarrow> int \<Rightarrow> 'i flasher \<Rightarrow> (int \<times> 'i flasher) option"
      and t :: "'i target" and d l st a r
    assume ih: "\<And>t d l st a r. f t d l st a = Some r \<Longrightarrow> t = tgt \<longrightarrow> P a \<longrightarrow> P (snd r)"
    assume body: "(if 0 < l \<and> 0 < remaining a \<and> TINFL_STATUS_DONE t < st then
        Option.bind (inflate_round t d l a)
          (\<lambda>(data_buf1, len1, status1, s1). f t data_buf1 len1 status1 s1)
      else Some (st, a)) = Some r"
    show "t = tgt \<longrightarrow> P a \<longrightarrow> P (snd r)"
    proof (intro impI)
      assume t: "t = tgt" and a: "P a"
      show "P (snd r)"
      proof (cases "0 < l \<and> 0 < remaining a \<and> TINFL_STATUS_DONE t < st")
        case False
        with body have "r = (st, a)" by (simp split: if_splits)
        with a show ?thesis by simp
      next
        case True
        with body obtain d1 l1 st1 a1 where
          rnd: "inflate_round t d l a = Some (d1, l1, st1, a1)"
          and rec: "f t d1 l1 st1 a1 = Some r"
          by (auto simp: bind_eq_Some_conv)
        have "P a1" using inflate_round_keeps [OF k _ a] rnd t by simp
        with ih [OF rec] t show ?thesis by simp
      qed
    qed
  qed
  with run init show ?thesis by fastforce
qed

lemma inflate_status_check_keeps:
  assumes k: "kept_by_data_path tgt P" and init: "P s"
  shows "P (inflate_status_check tgt status s)"
proof -
  have e: "inflate_status_check tgt status s = s
     \<or> (\<exists>e. e \<noteq> ESP_OK \<and> inflate_status_check tgt status s = s\<lparr> last_error := e \<rparr>)"
    by (auto simp: inflate_status_check_def Let_def)
  then show ?thesis
    using init kept_by_data_pathD(3) [OF k init] by auto
qed

lemma handle_flash_deflated_data_keeps:
  assumes k: "kept_by_data_path tgt P"
    and run: "handle_flash_deflated_data tgt data_buf len s = Some s'"
    and init: "P s"
  shows "P s'"
proof -
  from run obtain status s1 where
    l: "inflate_loop tgt data_buf len (TINFL_STATUS_NEEDS_MORE_INPUT tgt) s = Some (status, s1)"
    and s': "s' = inflate_status_check tgt status s1"
    by (auto simp: handle_flash_deflated_data_def split: option.splits)
  have "P s1" by (rule inflate_loop_keeps [OF k l init])
  then show ?thesis unfolding s' by (rule inflate_status_check_keeps [OF k])
qed

lemma in_session_keeps:
  assumes k: "kept_by_data_path tgt P"
    and fin: "\<And>s. P s \<Longrightarrow> P (s\<lparr> in_flash_mode := False \<rparr>)"
    and sess: "in_session tgt s0 s"
    and init: "P s0"
  shows "P s"
  using sess
proof (induction rule: in_session.induct)
  case begun
  show ?case by (rule init)
next
  case (erase s)
  then show ?case by (intro kept_by_data_pathD(1) [OF k])
next
  case (data s data_buf len s')
  then show ?case using handle_flash_data_keeps [OF k] by blast
next
  case (deflated_data s data_buf len s')
  then show ?case using handle_flash_deflated_data_keeps [OF k] by blast
next
  case (ended s)
  then show ?case using fin by (auto simp: handle_flash_end_def)
qed

section \<open>Sectors erased in a session\<close>

lemma erase_window_kept:
  assumes ok: "target_ok tgt" and e: "e < 2147483648" and a: "0 \<le> a"
  shows "kept_by_data_path tgt (erase_window a e old)"
proof (unfold kept_by_data_path_def, intro conjI allI impI)
  show "\<And>s. erase_window a e old s \<Longrightarrow> erase_window a e old (start_next_erase tgt s)"
    by (rule erase_window_step [OF ok e a])
qed (simp_all add: erase_window_def)

lemma begin_erase_window:
  assumes ok: "target_ok tgt"
    and run: "handle_flash_begin tgt total_size offset s = (err, s0)"
  shows "erase_window (uint offset div uint (FLASH_SECTOR_SIZE tgt))
           (uint offset div uint (FLASH_SECTOR_SIZE tgt)
            + uint (total_size + FLASH_SECTOR_SIZE tgt - 1) div uint (FLASH_SECTOR_SIZE tgt))
           (erase_log s) s0"
proof -
  let ?ss = "FLASH_SECTOR_SIZE tgt"
  have ss: "4 \<le> uint ?ss" by (rule target_ok_sector_size(1) [OF ok])
  have s0: "s0 = s\<lparr> in_flash_mode := True, next_write := offset,
                     next_erase_sector := offset div ?ss, remaining := total_size,
                     remaining_erase_sector := (total_size + ?ss - 1) div ?ss,
                     last_error := ESP_OK \<rparr>"
    using run by (auto simp: handle_flash_begin_def Let_def split: if_splits)
  have 1: "sint (offset div ?ss) = uint offset div uint ?ss"
    by (rule div_sector_fits(2) [OF ss])
  have 2: "sint ((total_size + ?ss - 1) div ?ss) = uint (total_size + ?ss - 1) div uint ?ss"
    by (rule div_sector_fits(2) [OF ss])
  have 3: "0 \<le> uint (total_size + ?ss - 1) div uint ?ss"
    using ss by (intro pos_imp_zdiv_nonneg_iff [THEN iffD2]) simp_all
  show ?thesis using 1 2 3 by (simp add: erase_window_def s0)
qed

lemma window_bounds:
  assumes ss: "4 \<le> uint (ss::32 word)"
  shows "0 \<le> uint (offset::32 word) div uint ss"
    and "uint offset div uint ss + uint ((total_size::32 word) + ss - 1) div uint ss < 2147483648"
    and "uint offset div uint ss + uint (total_size + ss - 1) div uint ss
         \<le> (uint offset + uint total_size + uint ss - 1) div uint ss"
proof -
  have pos: "0 < uint ss" using ss by simp
  show "0 \<le> uint offset div uint ss"
    using pos by (intro pos_imp_zdiv_nonneg_iff [THEN iffD2]) simp_all
  have a: "uint (offset div ss) < 1073741824" and b: "uint ((total_size + ss - 1) div ss) < 1073741824"
    by (rule div_sector_fits(1) [OF ss])+
  then show "uint offset div uint ss + uint (total_size + ss - 1) div uint ss < 2147483648"
    by (simp add: uint_div_distrib)
  have w: "uint (total_size + ss - 1) \<le> uint total_size + uint ss - 1"
  proof -
    have "uint (total_size + ss - 1) = (uint total_size + uint ss - 1) mod 4294967296"
      by (simp add: uint_word_ariths mod_simps take_bit_eq_mod)
    also have "\<dots> \<le> uint total_size + uint ss - 1"
    proof (rule zmod_le_nonneg_dividend)
      have "0 \<le> uint total_size" by simp
      with pos show "0 \<le> uint total_size + uint ss - 1" by linarith
    qed
    finally show ?thesis .
  qed
  let ?a = "uint offset div uint ss"
  have "?a + uint (total_size + ss - 1) div uint ss
        = (?a * uint ss + uint (total_size + ss - 1)) div uint ss"
    using pos by simp
  also have "\<dots> \<le> (uint offset + uint total_size + uint ss - 1) div uint ss"
  proof (rule zdiv_mono1)
    have "?a * uint ss \<le> uint offset"
      using pos by (metis div_mult_mod_eq le_add_same_cancel1 pos_mod_sign)
    with w show "?a * uint ss + uint (total_size + ss - 1)
                 \<le> uint offset + uint total_size + uint ss - 1" by linarith
    show "0 < uint ss" by (rule pos)
  qed
  finally show "uint offset div uint ss + uint (total_size + ss - 1) div uint ss
         \<le> (uint offset + uint total_size + uint ss - 1) div uint ss" .
qed

text \<open>
  C6: in a session begun as \<^verbatim>\<open>begin(total_size, offset)\<close>, whatever scheduler
  invocations, data calls, compressed data calls and end calls follow, the erase commands
  issued since begin cover pairwise different sector indices, none below the sector of
  the offset and none at or above \<open>(offset + total_size)\<close> divided by the sector size
  rounded up.
\<close>

theorem erase_scheduler_within_image:
  assumes ok: "target_ok tgt"
    and run: "handle_flash_begin tgt total_size offset s = (err, s0)"
    and sess: "in_session tgt s0 s'"
  shows "\<exists>ops. erase_log s' = erase_log s @ ops
           \<and> distinct (concat (map erased_sectors ops))
           \<and> (\<forall>i \<in> set (concat (map erased_sectors ops)).
                 uint offset div uint (FLASH_SECTOR_SIZE tgt) \<le> i
                 \<and> i < (uint offset + uint total_size + uint (FLASH_SECTOR_SIZE tgt) - 1)
                         div uint (FLASH_SECTOR_SIZE tgt))"
proof -
  let ?ss = "FLASH_SECTOR_SIZE tgt"
  let ?a = "uint offset div uint ?ss"
  let ?e = "?a + uint (total_size + ?ss - 1) div uint ?ss"
  have ss: "4 \<le> uint ?ss" by (rule target_ok_sector_size(1) [OF ok])
  have b: "0 \<le> ?a" "?e < 2147483648"
    "?e \<le> (uint offset + uint total_size + uint ?ss - 1) div uint ?ss"
    by (rule window_bounds [OF ss])+
  have k: "kept_by_data_path tgt (erase_window ?a ?e (erase_log s))"
    by (rule erase_window_kept [OF ok b(2) b(1)])
  have w: "erase_window ?a ?e (erase_log s) s'"
  proof (rule in_session_keeps [OF k _ sess])
    show "erase_window ?a ?e (erase_log s) s0" by (rule begin_erase_window [OF ok run])
    show "\<And>x. erase_window ?a ?e (erase_log s) x
           \<Longrightarrow> erase_window ?a ?e (erase_log s) (x\<lparr> in_flash_mode := False \<rparr>)"
      by (simp add: erase_window_def)
  qed
  let ?ops = "drop (length (erase_log s)) (erase_log s')"
  have 1: "erase_log s' = erase_log s @ ?ops"
    using w by (metis append_take_drop_id erase_window_def)
  have 2: "concat (map erased_sectors ?ops) = [?a .. sint (next_erase_sector s') - 1]"
    using w by (simp add: erase_window_def)
  have 3: "sint (next_erase_sector s') \<le> ?e"
    using w by (simp add: erase_window_def)
  show ?thesis
  proof (intro exI [of _ ?ops] conjI ballI)
    show "erase_log s' = erase_log s @ ?ops" by (rule 1)
    show "distinct (concat (map erased_sectors ?ops))" by (simp add: 2)
  next
    fix i assume "i \<in> set (concat (map erased_sectors ?ops))"
    then have i: "?a \<le> i" "i < sint (next_erase_sector s')" by (simp_all add: 2)
    show "?a \<le> i" by (rule i(1))
    show "i < (uint offset + uint total_size + uint ?ss - 1) div uint ?ss"
      using i(2) 3 b(3) by linarith
  qed
qed

lemmas scheduler_defs = erase_ahead.simps start_next_erase_def spiflash_is_ready_def

theorem erase_scheduler_within_image_witness:
  "target_ok demo_target
   \<and> concat (map erased_sectors (erase_log (the (handle_flash_data demo_target
          (replicate 9000 0) 9000 (snd (handle_flash_begin demo_target 10000 8192 power_on))))))
       = [2, 3, 4]
   \<and> distinct (concat (map erased_sectors (erase_log (the (handle_flash_data demo_target
          (replicate 9000 0) 9000 (snd (handle_flash_begin demo_target 10000 8192 power_on)))))))
   \<and> (uint (8192::u32) + uint (10000::u32) + uint (FLASH_SECTOR_SIZE demo_target) - 1)
        div uint (FLASH_SECTOR_SIZE demo_target) = 5"
proof -
  let ?s0 = "snd (handle_flash_begin demo_target 10000 8192 power_on)"
  let ?r = "handle_flash_data demo_target (replicate 9000 0) 9000 ?s0"
  have ok: "target_ok demo_target" by (simp add: target_ok_def demo_target_def)
  have log: "map_option erase_log ?r
    = Some [\<lparr> eo_command = SPI_FLASH_SE, eo_addr = 0x2000, eo_sector = 2, eo_count = 1 \<rparr>,
            \<lparr> eo_command = SPI_FLASH_SE, eo_addr = 0x3000, eo_sector = 3, eo_count = 1 \<rparr>,
            \<lparr> eo_command = SPI_FLASH_SE, eo_addr = 0x4000, eo_sector = 4, eo_count = 1 \<rparr>]"
    by (simp add: handle_flash_data_def scheduler_defs demo_defs Let_def)
  then obtain s1 where r: "?r = Some s1" by auto
  have sess: "in_session demo_target ?s0 s1"
    by (rule in_session.data [OF in_session.begun r])
  have old: "erase_log power_on = []" by (simp add: power_on_def)
  from erase_scheduler_within_image [OF ok surjective_pairing sess]
  have d: "distinct (concat (map erased_sectors (erase_log s1)))"
    by (simp add: old)
  have c: "concat (map erased_sectors (erase_log s1)) = [2, 3, 4]"
    using log r by (simp add: erased_sectors_def upto.simps)
  show ?thesis using ok d c r by (simp add: demo_target_def)
qed

section \<open>Raw data chunks\<close>

subsection \<open>What the erase loop leaves alone\<close>

lemma start_next_erase_frame:
  "in_flash_mode (start_next_erase tgt s) = in_flash_mode s"
  "next_write (start_next_erase tgt s) = next_write s"
  "remaining (start_next_erase tgt s) = remaining s"
  "last_error (start_next_erase tgt s) = last_error s"
  "inflator (start_next_erase tgt s) = inflator s"
  "remaining_compressed (start_next_erase tgt s) = remaining_compressed s"
  "out_buf (start_next_erase tgt s) = out_buf s"
  "next_out (start_next_erase tgt s) = next_out s"
  "write_log (start_next_erase tgt s) = write_log s"
  by (simp_all add: start_next_erase_def spiflash_is_ready_def Let_def split: prod.splits)

lemma erase_ahead_frame:
  assumes "erase_ahead tgt last_sector s = Some s1"
  shows "in_flash_mode s1 = in_flash_mode s \<and> next_write s1 = next_write s
    \<and> remaining s1 = remaining s \<and> last_error s1 = last_error s
    \<and> inflator s1 = inflator s \<and> remaining_compressed s1 = remaining_compressed s
    \<and> out_buf s1 = out_buf s \<and> next_out s1 = next_out s \<and> write_log s1 = write_log s"
  by (rule erase_ahead_preserves [where P = "\<lambda>x. in_flash_mode x = in_flash_mode s
    \<and> next_write x = next_write s
    \<and> remaining x = remaining s \<and> last_error x = last_error s
    \<and> inflator x = inflator s \<and> remaining_compressed x = remaining_compressed s
    \<and> out_buf x = out_buf s \<and> next_out x = next_out s \<and> write_log x = write_log s",
    OF _ assms]) (simp_all add: start_next_erase_frame)

subsection \<open>One call and a run of calls\<close>

lemma handle_flash_data_result:
  assumes "handle_flash_data tgt data_buf len s = Some s'"
  shows "next_write s' = next_write s + len"
    and "remaining s' = remaining s - len"
    and "in_flash_mode s' = in_flash_mode s"
    and "write_log s' = write_log s @ [(next_write s, take (unat len) data_buf, len)]"
    and "last_error s' = (if SPIWrite tgt (length (write_log s)) \<noteq> 0
                          then ESP_FAILED_SPI_OP else last_error s)"
proof -
  from assms obtain s1 where
    1: "erase_ahead tgt
          ((next_write s + len + FLASH_SECTOR_SIZE tgt - 1) div FLASH_SECTOR_SIZE tgt) s
        = Some s1"
    and s': "s' = s1\<lparr> write_log := write_log s1 @
                       [(next_write s1, take (unat len) data_buf, len)],
                    last_error := (if SPIWrite tgt (length (write_log s1)) \<noteq> 0
                                   then ESP_FAILED_SPI_OP else last_error s1),
                    next_write := next_write s1 + len,
                    remaining := remaining s1 - len \<rparr>"
    unfolding handle_flash_data_Some by blast
  note f = erase_ahead_frame [OF 1]
  show "next_write s' = next_write s + len" "remaining s' = remaining s - len"
    "in_flash_mode s' = in_flash_mode s"
    "write_log s' = write_log s @ [(next_write s, take (unat len) data_buf, len)]"
    "last_error s' = (if SPIWrite tgt (length (write_log s)) \<noteq> 0
                          then ESP_FAILED_SPI_OP else last_error s)"
    using f by (simp_all add: s')
qed

lemma flash_data_calls_result:
  assumes "flash_data_calls tgt chunks s = Some s'"
  shows "next_write s' = next_write s + sum_list (map snd chunks)
    \<and> remaining s' = remaining s - sum_list (map snd chunks)
    \<and> in_flash_mode s' = in_flash_mode s
    \<and> (last_error s = ESP_FAILED_SPI_OP \<longrightarrow> last_error s' = ESP_FAILED_SPI_OP)"
  using assms
proof (induction chunks arbitrary: s)
  case Nil
  then show ?case by simp
next
  case (Cons c chunks)
  obtain data_buf len where c: "c = (data_buf, len)" by (cases c)
  from Cons.prems obtain s1 where
    1: "handle_flash_data tgt data_buf len s = Some s1"
    and 2: "flash_data_calls tgt chunks s1 = Some s'"
    by (auto simp: c split: option.splits)
  note r = handle_flash_data_result [OF 1]
  from Cons.IH [OF 2] show ?case
    by (simp add: c r(1,2,3,5) algebra_simps)
qed

text \<open>
  C3: after a data call of length \<open>len\<close> returns, the write cursor has gone up by \<open>len\<close>
  and the bytes remaining have gone down by \<open>len\<close> (both as 32-bit values), whether
  \<^verbatim>\<open>SPIWrite\<close> succeeded or failed. A failed write stores the SPI-write-failure error and
  nothing else changes course: every later data call that returns still moves both
  counters by its length, the error is still stored after them, and if the session was in
  flash mode and the bytes remaining have reached 0, end returns that error and leaves
  flash mode.
\<close>

theorem handle_flash_data_advances_cursors:
  assumes first: "handle_flash_data tgt data_buf len s = Some s1"
    and rest: "flash_data_calls tgt chunks s1 = Some s2"
  shows "next_write s1 = next_write s + len
    \<and> remaining s1 = remaining s - len
    \<and> (SPIWrite tgt (length (write_log s)) \<noteq> 0 \<longrightarrow> get_flash_error s1 = ESP_FAILED_SPI_OP)
    \<and> (SPIWrite tgt (length (write_log s)) = 0 \<longrightarrow> get_flash_error s1 = get_flash_error s)
    \<and> next_write s2 = next_write s1 + sum_list (map snd chunks)
    \<and> remaining s2 = remaining s1 - sum_list (map snd chunks)
    \<and> (SPIWrite tgt (length (write_log s)) \<noteq> 0 \<longrightarrow>
          get_flash_error s2 = ESP_FAILED_SPI_OP
          \<and> (is_in_flash_mode s \<and> remaining s2 = 0 \<longrightarrow>
                fst (handle_flash_end s2) = ESP_FAILED_SPI_OP
                \<and> \<not> is_in_flash_mode (snd (handle_flash_end s2))))"
proof -
  note a = handle_flash_data_result [OF first]
  note b = flash_data_calls_result [OF rest]
  show ?thesis
    using a(1,2,3,5) b
    by (simp add: get_flash_error_def is_in_flash_mode_def handle_flash_end_def)
qed

theorem handle_flash_data_advances_cursors_witness:
  "map_option (\<lambda>s. (next_write s, remaining s, get_flash_error s))
     (handle_flash_data (demo_target\<lparr> SPIWrite := (\<lambda>k. if k = 0 then 1 else 0) \<rparr>)
        (replicate 9000 0) 9000 (snd (handle_flash_begin demo_target 10000 0 power_on)))
   = Some (9000, 1000, ESP_FAILED_SPI_OP)
   \<and> map_option (\<lambda>s. (next_write s, remaining s, handle_flash_end s = (ESP_FAILED_SPI_OP, s\<lparr> in_flash_mode := False \<rparr>)))
     (flash_data_calls (demo_target\<lparr> SPIWrite := (\<lambda>k. if k = 0 then 1 else 0) \<rparr>)
        [(replicate 9000 0, 9000), (replicate 1000 0, 1000)]
        (snd (handle_flash_begin demo_target 10000 0 power_on)))
   = Some (10000, 0, True)"
proof -
  let ?tgt = "demo_target\<lparr> SPIWrite := (\<lambda>k. if k = 0 then 1 else 0) \<rparr>"
  let ?s0 = "snd (handle_flash_begin demo_target 10000 0 power_on)"
  have s0: "next_write ?s0 = 0" "remaining ?s0 = 10000" "write_log ?s0 = []"
    "is_in_flash_mode ?s0"
    by (simp_all add: demo_defs is_in_flash_mode_def)
  have fail: "SPIWrite ?tgt (length (write_log ?s0)) \<noteq> 0" by (simp add: s0)
  have "handle_flash_data ?tgt (replicate 9000 0) 9000 ?s0 \<noteq> None"
    by (simp add: handle_flash_data_def scheduler_defs demo_defs Let_def)
  then obtain s1 where 1: "handle_flash_data ?tgt (replicate 9000 0) 9000 ?s0 = Some s1"
    by auto
  have p1: "next_write s1 = 9000" "remaining s1 = 1000" "next_erase_sector s1 = 3"
    "remaining_erase_sector s1 = 0"
    using 1 by (auto simp add: handle_flash_data_def scheduler_defs demo_defs Let_def)
  have "flash_data_calls ?tgt [(replicate 1000 0, 1000)] s1 \<noteq> None"
    by (simp add: handle_flash_data_def erase_ahead.simps p1 demo_target_def)
  then obtain s2 where 2: "flash_data_calls ?tgt [(replicate 1000 0, 1000)] s1 = Some s2"
    by auto
  from handle_flash_data_advances_cursors [OF 1 2] fail s0
  have "next_write s1 = 9000 \<and> remaining s1 = 1000 \<and> get_flash_error s1 = ESP_FAILED_SPI_OP
    \<and> next_write s2 = 10000 \<and> remaining s2 = 0 \<and> get_flash_error s2 = ESP_FAILED_SPI_OP
    \<and> fst (handle_flash_end s2) = ESP_FAILED_SPI_OP
    \<and> \<not> is_in_flash_mode (snd (handle_flash_end s2))"
    by simp
  moreover have "flash_data_calls ?tgt [(replicate 9000 0, 9000), (replicate 1000 0, 1000)] ?s0
    = Some s2"
    using 1 2 by simp
  moreover have "in_flash_mode s2"
    using flash_data_calls_result [OF 2] handle_flash_data_result(3) [OF 1] s0(4)
    by (simp add: is_in_flash_mode_def)
  ultimately show ?thesis
    using 1 by (simp add: handle_flash_end_def is_in_flash_mode_def get_flash_error_def)
qed

section \<open>The erase loop of a data call\<close>

lemma erase_ahead_reaches:
  assumes "erase_ahead tgt last_sector s = Some s1"
  shows "sint last_sector \<le> sint (next_erase_sector s1)"
proof -
  have "sint l \<le> sint (next_erase_sector b)" if "erase_ahead t l a = Some b" for t l a b
    using that
  proof (rule erase_ahead.raw_induct
      [rotated, where P = "\<lambda>t l a b. sint l \<le> sint (next_erase_sector b)"])
    fix f t l a b
    assume ih: "\<And>t l a b. f t l a = Some b \<Longrightarrow> sint l \<le> sint (next_erase_sector b)"
      and body: "(if sint (next_erase_sector a) < sint l
                  then f t l (start_next_erase t a) else Some a) = Some b"
    show "sint l \<le> sint (next_erase_sector b)"
    proof (cases "sint (next_erase_sector a) < sint l")
      case True
      with body have "f t l (start_next_erase t a) = Some b" by simp
      then show ?thesis by (rule ih)
    next
      case False
      with body show ?thesis by auto
    qed
  qed
  from this [OF assms] show ?thesis .
qed

text \<open>With no sectors left to erase and the cursor short of the target, the loop spins.\<close>

lemma erase_ahead_spins:
  assumes "remaining_erase_sector s = 0"
    and "sint (next_erase_sector s) < sint last_sector"
  shows "erase_ahead tgt last_sector s = None"
proof (rule ccontr)
  assume "erase_ahead tgt last_sector s \<noteq> None"
  then obtain s1 where run: "erase_ahead tgt last_sector s = Some s1" by auto
  have "\<not> (remaining_erase_sector a = 0 \<and> sint (next_erase_sector a) < sint l)"
    if "erase_ahead t l a = Some b" for t l a b
    using that
  proof (rule erase_ahead.raw_induct
      [rotated, where P = "\<lambda>t l a b. \<not> (remaining_erase_sector a = 0
                                           \<and> sint (next_erase_sector a) < sint l)"])
    fix f t l a b
    assume ih: "\<And>t l a b. f t l a = Some b \<Longrightarrow>
                   \<not> (remaining_erase_sector a = 0 \<and> sint (next_erase_sector a) < sint l)"
      and body: "(if sint (next_erase_sector a) < sint l
                  then f t l (start_next_erase t a) else Some a) = Some b"
    show "\<not> (remaining_erase_sector a = 0 \<and> sint (next_erase_sector a) < sint l)"
    proof
      assume stuck: "remaining_erase_sector a = 0 \<and> sint (next_erase_sector a) < sint l"
      then have "start_next_erase t a = a" by (simp add: start_next_erase_def)
      with body stuck have "f t l a = Some b" by simp
      from ih [OF this] stuck show False by blast
    qed
  qed
  from this [OF run] assms show False by blast
qed

text \<open>
  C7, on the code: with an offset that is not a multiple of the sector size the loop can
  fail to end. After \<^verbatim>\<open>begin(2, 4095)\<close> on 4096-byte sectors the session has one sector
  to erase, sector 0. A data call with the 2 bytes of the image, which lie in sectors 0 and
  1, waits for the erase cursor to reach sector 2; the scheduler erases sector 0, has
  nothing left, and the cursor stays at 1. The flash is idle at every poll, and the call
  never returns.
\<close>

theorem unaligned_offset_data_never_returns:
  "handle_flash_data demo_target [0, 0] 2 (snd (handle_flash_begin demo_target 2 4095 power_on))
   = None"
proof -
  let ?s0 = "snd (handle_flash_begin demo_target 2 4095 power_on)"
  define s1 where "s1 = start_next_erase demo_target ?s0"
  have s1: "remaining_erase_sector s1 = 0" "next_erase_sector s1 = 1"
    by (simp_all add: s1_def start_next_erase_def spiflash_is_ready_def demo_defs)
  have e0: "erase_ahead demo_target 2 ?s0 = erase_ahead demo_target 2 s1"
    by (subst erase_ahead.simps) (simp add: s1_def demo_defs)
  have "erase_ahead demo_target 2 s1 = None"
    by (rule erase_ahead_spins) (simp_all add: s1)
  with e0 have "erase_ahead demo_target 2 ?s0 = None" by simp
  moreover have "(next_write ?s0 + 2 + FLASH_SECTOR_SIZE demo_target - 1)
                   div FLASH_SECTOR_SIZE demo_target = 2"
    by (simp add: demo_defs)
  ultimately show ?thesis by (simp add: handle_flash_data_def)
qed

section \<open>The byte counter past zero\<close>

lemma sum_list_word_of_int:
  "sum_list (ws :: 32 word list) = word_of_int (sum_list (map uint ws))"
  by (induction ws) simp_all

lemma uint_wrapped_excess:
  assumes "0 < d" "d < 4294967296"
  shows "uint (word_of_int (- d) :: 32 word) = 4294967296 - d"
proof -
  have "uint (word_of_int (- d) :: 32 word) = (- d) mod 2 ^ LENGTH(32)"
    by (rule uint_word_of_int)
  then have "uint (word_of_int (- d) :: 32 word) = (- d) mod 4294967296"
    by simp
  also have "\<dots> = 4294967296 - d"
    using assms by (simp add: zmod_zminus1_eq_if)
  finally show ?thesis .
qed

lemma handle_flash_data_returns:
  "erase_ahead tgt
     ((next_write s + len + FLASH_SECTOR_SIZE tgt - 1) div FLASH_SECTOR_SIZE tgt) s = Some s1
   \<Longrightarrow> \<exists>s'. handle_flash_data tgt data_buf len s = Some s'"
  by (simp add: handle_flash_data_def Let_def)

text \<open>
  C10, the claim as stated fails when the bytes delivered exceed the declared size by
  exactly \<open>2^32\<close>: the counter has then gone once around and is 0 again. After
  \<^verbatim>\<open>begin(0, 0)\<close>, data calls of lengths \<^verbatim>\<open>0xFFFFFFFF\<close> and \<^verbatim>\<open>1\<close> return, the bytes
  remaining are 0 and end returns OK.
\<close>

theorem remaining_returns_to_zero_after_full_wrap:
  "uint (0::u32) < uint (0xFFFFFFFF::u32) + uint (1::u32)
   \<and> map_option (\<lambda>s. (remaining s, fst (handle_flash_end s)))
        (flash_data_calls demo_target
           [(replicate 4294967295 0, 0xFFFFFFFF), ([0], 1)]
           (snd (handle_flash_begin demo_target 0 0 power_on)))
      = Some (0, ESP_OK)"
proof -
  let ?s0 = "snd (handle_flash_begin demo_target 0 0 power_on)"
  have s0: "next_erase_sector ?s0 = 0" "next_write ?s0 = 0" "remaining ?s0 = 0"
    "last_error ?s0 = ESP_OK" "in_flash_mode ?s0"
    by (simp_all add: demo_defs)
  have ss: "FLASH_SECTOR_SIZE demo_target = 4096" "SPIWrite demo_target = (\<lambda>k. 0)"
    by (simp_all add: demo_target_def)
  have l1: "(next_write ?s0 + 0xFFFFFFFF + FLASH_SECTOR_SIZE demo_target - 1)
              div FLASH_SECTOR_SIZE demo_target = 0"
    by (simp add: s0 ss)
  have e1: "erase_ahead demo_target 0 ?s0 = Some ?s0"
    by (simp add: erase_ahead.simps s0)
  have e1': "erase_ahead demo_target
          ((next_write ?s0 + 0xFFFFFFFF + FLASH_SECTOR_SIZE demo_target - 1)
             div FLASH_SECTOR_SIZE demo_target) ?s0 = Some ?s0"
    by (simp only: l1 e1)
  from handle_flash_data_returns [OF this] obtain s1 where
    1: "handle_flash_data demo_target (replicate 4294967295 0) 0xFFFFFFFF ?s0 = Some s1"
    by blast
  note r1 = handle_flash_data_result [OF 1]
  have s1: "next_write s1 = 0xFFFFFFFF" "remaining s1 = 1" "last_error s1 = ESP_OK"
    "in_flash_mode s1"
    using r1 by (simp_all add: s0 ss)
  have s1e: "next_erase_sector s1 = 0"
    using 1 unfolding handle_flash_data_Some e1' by (auto simp: s0)
  have l2: "(next_write s1 + 1 + FLASH_SECTOR_SIZE demo_target - 1)
              div FLASH_SECTOR_SIZE demo_target = 0"
    by (simp add: s1 ss)
  have "erase_ahead demo_target 0 s1 = Some s1"
    by (simp add: erase_ahead.simps s1e)
  then have "erase_ahead demo_target
          ((next_write s1 + 1 + FLASH_SECTOR_SIZE demo_target - 1)
             div FLASH_SECTOR_SIZE demo_target) s1 = Some s1"
    by (simp only: l2)
  from handle_flash_data_returns [OF this] obtain s2 where
    2: "handle_flash_data demo_target [0] 1 s1 = Some s2"
    by blast
  note r2 = handle_flash_data_result [OF 2]
  have s2: "remaining s2 = 0" "last_error s2 = ESP_OK" "in_flash_mode s2"
    using r2 by (simp_all add: s1 ss)
  have "flash_data_calls demo_target
           [(replicate 4294967295 0, 0xFFFFFFFF), ([0], 1)] ?s0 = Some s2"
    by (simp add: 1 2)
  then show ?thesis by (simp add: s2 handle_flash_end_def)
qed

text \<open>
  C10, amended: the counter is decremented modulo \<open>2^32\<close> and does not saturate. If the
  data calls of a session return and deliver more bytes in total than the declared size,
  by fewer than \<open>2^32\<close>, the bytes remaining are \<open>2^32\<close> minus the excess, which is not 0,
  and end returns the not-enough-data error and leaves the session as it is.
\<close>

theorem remaining_wraps_past_zero:
  assumes run: "handle_flash_begin tgt total_size offset s = (err, s0)"
    and calls: "flash_data_calls tgt chunks s0 = Some s'"
    and more: "uint total_size < sum_list (map (uint \<circ> snd) chunks)"
    and less: "sum_list (map (uint \<circ> snd) chunks) - uint total_size < 4294967296"
  shows "uint (remaining s')
           = 4294967296 - (sum_list (map (uint \<circ> snd) chunks) - uint total_size)
    \<and> remaining s' \<noteq> 0
    \<and> handle_flash_end s' = (ESP_NOT_ENOUGH_DATA, s')"
proof -
  let ?sum = "sum_list (map (uint \<circ> snd) chunks)"
  have s0: "remaining s0 = total_size" "in_flash_mode s0"
    using run by (auto simp: handle_flash_begin_def Let_def split: if_splits)
  note r = flash_data_calls_result [OF calls]
  have "remaining s' = total_size - sum_list (map snd chunks)"
    using r s0 by simp
  also have "sum_list (map snd chunks) = word_of_int ?sum"
    by (simp add: sum_list_word_of_int comp_def)
  finally have "remaining s' = word_of_int (- (?sum - uint total_size))"
    by (simp del: of_int_minus)
  then have u: "uint (remaining s') = 4294967296 - (?sum - uint total_size)"
    using uint_wrapped_excess [of "?sum - uint total_size"] more less by simp
  have nz: "remaining s' \<noteq> 0"
  proof
    assume "remaining s' = 0"
    then have "uint (remaining s') = 0" by simp
    with u less show False by simp
  qed
  then have "0 < remaining s'" by (simp add: word_greater_zero_iff)
  moreover have "in_flash_mode s'" using r s0 by simp
  ultimately have "handle_flash_end s' = (ESP_NOT_ENOUGH_DATA, s')"
    by (simp add: handle_flash_end_def)
  with u nz show ?thesis by simp
qed

theorem remaining_wraps_past_zero_witness:
  "map_option (\<lambda>s. (uint (remaining s), handle_flash_end s = (ESP_NOT_ENOUGH_DATA, s)))
     (flash_data_calls demo_target [(replicate 11 0, 11)]
        (snd (handle_flash_begin demo_target 10 0 power_on)))
   = Some (4294967295, True)"
proof -
  let ?s0 = "snd (handle_flash_begin demo_target 10 0 power_on)"
  have "flash_data_calls demo_target [(replicate 11 0, 11)] ?s0 \<noteq> None"
    by (simp add: handle_flash_data_def scheduler_defs demo_defs Let_def)
  then obtain s' where 1: "flash_data_calls demo_target [(replicate 11 0, 11)] ?s0 = Some s'"
    by auto
  have more: "uint (10::u32) < sum_list (map (uint \<circ> snd) [(replicate 11 (0::byte), 11::u32)])"
    and less: "sum_list (map (uint \<circ> snd) [(replicate 11 (0::byte), 11::u32)]) - uint (10::u32)
               < 4294967296"
    by simp_all
  from remaining_wraps_past_zero [OF surjective_pairing 1 more less]
  have "uint (remaining s') = 4294967295 \<and> handle_flash_end s' = (ESP_NOT_ENOUGH_DATA, s')"
    by simp
  then show ?thesis unfolding 1 by simp
qed

section \<open>When a data call returns\<close>

text \<open>
  The erase loop ends whenever the target of the loop is inside the session's erase
  window and the flash is idle again after every busy spell: every idle poll moves the
  cursor, and a busy poll is followed by an idle one after finitely many.
\<close>

lemma start_next_erase_advances:
  assumes ok: "target_ok tgt" and e: "e < 2147483648" and a: "0 \<le> a"
    and inv: "erase_window a e old s"
    and left: "remaining_erase_sector s \<noteq> 0"
    and idle: "flash_idle tgt (status_polls s)"
  shows "sint (next_erase_sector s) < sint (next_erase_sector (start_next_erase tgt s))"
proof -
  let ?spb = "SECTORS_PER_BLOCK tgt"
  let ?nxt = "next_erase_sector s" and ?rem = "remaining_erase_sector s"
  have spb: "0 < sint ?spb" using ok by (simp add: target_ok_def)
  have i: "0 \<le> sint ?rem" "a \<le> sint ?nxt" "sint ?nxt + sint ?rem = e"
    using inv by (simp_all add: erase_window_def)
  have pos: "0 < sint ?rem"
    using i(1) left by (metis order_less_le signed_eq_0_iff)
  show ?thesis
  proof (cases "sint ?spb \<le> sint ?rem \<and> sint ?spb dvd sint ?nxt")
    case True
    have "sint (?nxt + ?spb) = sint ?nxt + sint ?spb"
      using erase_step_exact [of ?nxt ?rem ?spb] i a e pos spb True by simp
    then show ?thesis
      using spb True by (simp add: start_next_erase_block [OF left idle])
  next
    case False
    have "sint (?nxt + 1) = sint ?nxt + 1"
      using erase_step_exact [of ?nxt ?rem 1] i a e pos by simp
    then show ?thesis
      by (simp add: start_next_erase_sector [OF left idle False])
  qed
qed

lemma erase_ahead_wait:
  assumes ok: "target_ok tgt" and e: "e < 2147483648" and a: "0 \<le> a"
    and lim: "sint last_sector \<le> e"
    and smaller: "\<And>x. erase_window a e old x
        \<Longrightarrow> sint (next_erase_sector s) < sint (next_erase_sector x)
        \<Longrightarrow> \<exists>y. erase_ahead tgt last_sector x = Some y"
    and inv: "erase_window a e old s"
    and idle: "flash_idle tgt (status_polls s + m)"
  shows "\<exists>y. erase_ahead tgt last_sector s = Some y"
  using smaller inv idle
proof (induction m arbitrary: s)
  case 0
  show ?case
  proof (cases "sint (next_erase_sector s) < sint last_sector")
    case False
    then show ?thesis by (subst erase_ahead.simps) simp
  next
    case True
    have i: "sint (next_erase_sector s) + sint (remaining_erase_sector s) = e"
      using "0.prems"(2) by (simp add: erase_window_def)
    have left: "remaining_erase_sector s \<noteq> 0"
    proof
      assume "remaining_erase_sector s = 0"
      with i True lim show False by simp
    qed
    have idle: "flash_idle tgt (status_polls s)" using "0.prems"(3) by simp
    have "\<exists>y. erase_ahead tgt last_sector (start_next_erase tgt s) = Some y"
      by (rule "0.prems"(1) [OF erase_window_step [OF ok e a "0.prems"(2)]
            start_next_erase_advances [OF ok e a "0.prems"(2) left idle]])
    with True show ?thesis by (subst erase_ahead.simps) simp
  qed
next
  case (Suc m)
  show ?case
  proof (cases "sint (next_erase_sector s) < sint last_sector")
    case False
    then show ?thesis by (subst erase_ahead.simps) simp
  next
    case True
    have i: "sint (next_erase_sector s) + sint (remaining_erase_sector s) = e"
      using Suc.prems(2) by (simp add: erase_window_def)
    have left: "remaining_erase_sector s \<noteq> 0"
    proof
      assume "remaining_erase_sector s = 0"
      with i True lim show False by simp
    qed
    have "\<exists>y. erase_ahead tgt last_sector (start_next_erase tgt s) = Some y"
    proof (cases "flash_idle tgt (status_polls s)")
      case idle: True
      show ?thesis
        by (rule Suc.prems(1) [OF erase_window_step [OF ok e a Suc.prems(2)]
              start_next_erase_advances [OF ok e a Suc.prems(2) left idle]])
    next
      case busy: False
      let ?s = "s\<lparr> status_polls := Suc (status_polls s) \<rparr>"
      have st: "start_next_erase tgt s = ?s" by (rule start_next_erase_busy [OF left busy])
      have w: "erase_window a e old ?s"
        using erase_window_step [OF ok e a Suc.prems(2)] by (simp add: st)
      have "\<exists>y. erase_ahead tgt last_sector ?s = Some y"
      proof (rule Suc.IH [OF _ w])
        show "flash_idle tgt (status_polls ?s + m)" using Suc.prems(3) by simp
        show "\<And>x. erase_window a e old x
          \<Longrightarrow> sint (next_erase_sector ?s) < sint (next_erase_sector x)
          \<Longrightarrow> \<exists>y. erase_ahead tgt last_sector x = Some y"
          using Suc.prems(1) by simp
      qed
      then show ?thesis by (simp add: st)
    qed
    with True show ?thesis by (subst erase_ahead.simps) simp
  qed
qed

lemma erase_ahead_returns:
  fixes tgt :: "'i target"
  assumes ok: "target_ok tgt" and e: "e < 2147483648" and a: "0 \<le> a"
    and lim: "sint last_sector \<le> e"
    and idle: "\<forall>k. \<exists>j\<ge>k. flash_idle tgt j"
    and inv: "erase_window a e old s"
  shows "\<exists>y. erase_ahead tgt last_sector s = Some y"
  using inv
proof (induction "nat (e - sint (next_erase_sector s))" arbitrary: s rule: less_induct)
  case less
  from idle obtain j where j: "status_polls s \<le> j" "flash_idle tgt j" by blast
  then have idle': "flash_idle tgt (status_polls s + (j - status_polls s))" by simp
  show ?case
  proof (rule erase_ahead_wait [OF ok e a lim _ less.prems idle'])
    fix x :: "'i flasher"
    assume w: "erase_window a e old x"
      and adv: "sint (next_erase_sector s) < sint (next_erase_sector x)"
    have "sint (next_erase_sector x) \<le> e" using w by (simp add: erase_window_def)
    with adv have "nat (e - sint (next_erase_sector x)) < nat (e - sint (next_erase_sector s))"
      by simp
    from less.hyps [OF this w] show "\<exists>y. erase_ahead tgt last_sector x = Some y" .
  qed
qed

lemma session_erase_window:
  assumes ok: "target_ok tgt"
    and run: "handle_flash_begin tgt total_size offset s = (err, s0)"
    and sess: "in_session tgt s0 s1"
  shows "erase_window (uint offset div uint (FLASH_SECTOR_SIZE tgt))
           (uint offset div uint (FLASH_SECTOR_SIZE tgt)
            + uint (total_size + FLASH_SECTOR_SIZE tgt - 1) div uint (FLASH_SECTOR_SIZE tgt))
           (erase_log s) s1"
proof -
  let ?ss = "FLASH_SECTOR_SIZE tgt"
  let ?a = "uint offset div uint ?ss"
  let ?e = "?a + uint (total_size + ?ss - 1) div uint ?ss"
  have ss: "4 \<le> uint ?ss" by (rule target_ok_sector_size(1) [OF ok])
  have b: "0 \<le> ?a" "?e < 2147483648" by (rule window_bounds [OF ss])+
  have k: "kept_by_data_path tgt (erase_window ?a ?e (erase_log s))"
    by (rule erase_window_kept [OF ok b(2) b(1)])
  show ?thesis
  proof (rule in_session_keeps [OF k _ sess])
    show "erase_window ?a ?e (erase_log s) s0" by (rule begin_erase_window [OF ok run])
    show "\<And>x. erase_window ?a ?e (erase_log s) x
           \<Longrightarrow> erase_window ?a ?e (erase_log s) (x\<lparr> in_flash_mode := False \<rparr>)"
      by (simp add: erase_window_def)
  qed
qed

text \<open>
  With a sector-aligned offset, sizes that do not wrap and a flash that is idle again
  after every busy spell, a data call for bytes inside the image returns.
\<close>

lemma aligned_data_call_returns:
  fixes tgt :: "'i target"
  assumes ok: "target_ok tgt"
    and run: "handle_flash_begin tgt total_size offset s = (err, s0)"
    and aligned: "uint offset mod uint (FLASH_SECTOR_SIZE tgt) = 0"
    and fits: "uint offset + uint total_size + uint (FLASH_SECTOR_SIZE tgt) - 1 < 4294967296"
    and sess: "in_session tgt s0 s1"
    and inside: "uint (next_write s1) + uint len \<le> uint offset + uint total_size"
    and idle: "\<forall>k. \<exists>j\<ge>k. flash_idle tgt j"
  shows "\<exists>s'. handle_flash_data tgt data_buf len s1 = Some s'"
proof -
  let ?ss = "FLASH_SECTOR_SIZE tgt"
  let ?a = "uint offset div uint ?ss"
  let ?e = "?a + uint (total_size + ?ss - 1) div uint ?ss"
  let ?last = "(next_write s1 + len + ?ss - 1) div ?ss"
  have ss: "4 \<le> uint ?ss" by (rule target_ok_sector_size(1) [OF ok])
  have pos: "0 < uint ?ss" using ss by simp
  have b: "0 \<le> ?a" "?e < 2147483648" by (rule window_bounds [OF ss])+
  have w: "erase_window ?a ?e (erase_log s) s1"
    by (rule session_erase_window [OF ok run sess])
  have nn: "0 \<le> uint offset" "0 \<le> uint total_size" "0 \<le> uint (next_write s1)" "0 \<le> uint len"
    by simp_all
  have t: "uint (total_size + ?ss - 1) = uint total_size + uint ?ss - 1"
  proof -
    have "uint (total_size + ?ss - 1) = (uint total_size + uint ?ss - 1) mod 4294967296"
      by (simp add: uint_word_ariths mod_simps take_bit_eq_mod)
    also have "\<dots> = uint total_size + uint ?ss - 1"
      using nn pos fits by (intro mod_pos_pos_trivial) linarith+
    finally show ?thesis .
  qed
  have l: "uint (next_write s1 + len + ?ss - 1) = uint (next_write s1) + uint len + uint ?ss - 1"
  proof -
    have "uint (next_write s1 + len + ?ss - 1)
          = (uint (next_write s1) + uint len + uint ?ss - 1) mod 4294967296"
      by (simp add: uint_word_ariths mod_simps take_bit_eq_mod)
    also have "\<dots> = uint (next_write s1) + uint len + uint ?ss - 1"
      using nn pos fits inside by (intro mod_pos_pos_trivial) linarith+
    finally show ?thesis .
  qed
  have al: "?a * uint ?ss = uint offset"
    using aligned by (metis add.right_neutral div_mult_mod_eq)
  have "sint ?last = (uint (next_write s1) + uint len + uint ?ss - 1) div uint ?ss"
    using div_sector_fits(2) [OF ss, of "next_write s1 + len + ?ss - 1"] by (simp add: l)
  also have "\<dots> \<le> (uint offset + uint total_size + uint ?ss - 1) div uint ?ss"
    using inside pos by (intro zdiv_mono1) simp_all
  also have "\<dots> = (?a * uint ?ss + (uint total_size + uint ?ss - 1)) div uint ?ss"
    by (simp only: al) (simp add: algebra_simps)
  also have "\<dots> = ?e"
    using pos by (simp add: t)
  finally have lim: "sint ?last \<le> ?e" .
  from erase_ahead_returns [OF ok b(2) b(1) lim idle w]
  obtain y where "erase_ahead tgt ?last s1 = Some y" by blast
  then show ?thesis by (rule handle_flash_data_returns)
qed

section \<open>Compressed data chunks\<close>

text \<open>The status a round hands on is the one \<^verbatim>\<open>tinfl_decompress\<close> returned in that round.\<close>

lemma inflate_round_status:
  assumes "inflate_round tgt data_buf len s = Some (data_buf1, len1, status1, s1)"
  shows "status1 = tr_status (tinfl_decompress tgt (inflator s) data_buf len (out_buf s)
           (next_out s) (32768 - next_out s)
           ({TINFL_FLAG_PARSE_ZLIB_HEADER} \<union>
              (if len < remaining_compressed s then {TINFL_FLAG_HAS_MORE_INPUT} else {})))"
proof -
  define r where "r = tinfl_decompress tgt (inflator s) data_buf len (out_buf s)
           (next_out s) (32768 - next_out s)
           ({TINFL_FLAG_PARSE_ZLIB_HEADER} \<union>
              (if len < remaining_compressed s then {TINFL_FLAG_HAS_MORE_INPUT} else {}))"
  define s2 where "s2 = (start_next_erase tgt s)\<lparr> inflator := tr_inflator r,
                    out_buf := tr_out_buf r,
                    remaining_compressed := remaining_compressed s - tr_in_bytes r,
                    next_out := next_out s + tr_out_bytes r \<rparr>"
  have run': "(if tr_status r \<le> TINFL_STATUS_DONE tgt \<or> next_out s2 = 32768 then
           case handle_flash_data tgt (out_buf s2) (next_out s2) s2 of
             None \<Rightarrow> None
           | Some s3 \<Rightarrow> Some (drop (unat (tr_in_bytes r)) data_buf, len - tr_in_bytes r,
                              tr_status r, s3\<lparr> next_out := 0 \<rparr>)
         else Some (drop (unat (tr_in_bytes r)) data_buf, len - tr_in_bytes r,
                    tr_status r, s2)) = Some (data_buf1, len1, status1, s1)"
    using assms
    unfolding inflate_round_def Let_def start_next_erase_frame s2_def r_def .
  have "status1 = tr_status r"
  proof (cases "tr_status r \<le> TINFL_STATUS_DONE tgt \<or> next_out s2 = 32768")
    case True
    with run' show ?thesis
      by (cases "handle_flash_data tgt (out_buf s2) (next_out s2) s2") auto
  next
    case False
    with run' show ?thesis by simp
  qed
  then show ?thesis by (simp add: r_def)
qed

text \<open>
  The status the loop stops with is the one it was started with, if it made no round, and
  otherwise the status of some round, that is, a status \<^verbatim>\<open>tinfl_decompress\<close> returned
  during this call.
\<close>

lemma inflate_loop_status:
  fixes tgt :: "'i target"
  assumes "inflate_loop tgt data_buf len status s = Some (status', s')"
  shows "status' = status
    \<or> (\<exists>d l a d1 l1 a1. inflate_round tgt d l a = Some (d1, l1, status', a1))"
proof -
  have "fst r = st \<or> (\<exists>d l a d1 l1 a1. inflate_round t d l a = Some (d1, l1, fst r, a1))"
    if "inflate_loop t d0 l0 st a0 = Some r" for t :: "'i target" and d0 l0 st a0 r
    using that
  proof (rule inflate_loop.raw_induct
      [rotated, where P = "\<lambda>t d0 l0 st a0 r. fst r = st
          \<or> (\<exists>d l a d1 l1 a1. inflate_round t d l a = Some (d1, l1, fst r, a1))"])
    fix f :: "'i target \<Rightarrow> byte list \<Rightarrow> u32 \<Rightarrow> int \<Rightarrow> 'i flasher \<Rightarrow> (int \<times> 'i flasher) option"
      and t :: "'i target" and d l st a r
    assume ih: "\<And>t d0 l0 st a0 r. f t d0 l0 st a0 = Some r \<Longrightarrow> fst r = st
          \<or> (\<exists>d l a d1 l1 a1. inflate_round t d l a = Some (d1, l1, fst r, a1))"
    assume body: "(if 0 < l \<and> 0 < remaining a \<and> TINFL_STATUS_DONE t < st then
        Option.bind (inflate_round t d l a)
          (\<lambda>(data_buf1, len1, status1, s1). f t data_buf1 len1 status1 s1)
      else Some (st, a)) = Some r"
    show "fst r = st
          \<or> (\<exists>d l a d1 l1 a1. inflate_round t d l a = Some (d1, l1, fst r, a1))"
    proof (cases "0 < l \<and> 0 < remaining a \<and> TINFL_STATUS_DONE t < st")
      case False
      with body have "r = (st, a)" by (simp split: if_splits)
      then show ?thesis by simp
    next
      case True
      with body obtain d1 l1 st1 a1 where
        rnd: "inflate_round t d l a = Some (d1, l1, st1, a1)"
        and rec: "f t d1 l1 st1 a1 = Some r"
        by (auto simp: bind_eq_Some_conv)
      from ih [OF rec] rnd show ?thesis by blast
    qed
  qed
  from this [OF assms] show ?thesis by simp
qed


lemma inflate_status_check_cases:
  "inflate_status_check tgt status s = s\<lparr> last_error :=
     (if status \<noteq> TINFL_STATUS_DONE tgt \<and> remaining s = 0 then ESP_TOO_MUCH_DATA
      else if status = TINFL_STATUS_DONE tgt \<and> 0 < remaining s then ESP_NOT_ENOUGH_DATA
      else if status < TINFL_STATUS_DONE tgt then ESP_INFLATE_ERROR
      else last_error s) \<rparr>"
  by (simp add: inflate_status_check_def Let_def)

text \<open>
  C4: whenever the loop of a compressed data call stops, with \<open>status\<close> the last status
  of the inflator (or the initial needs-more-input status if it was never called), the
  call returns, and it returns nothing but the state: that state is the one the loop left,
  with at most the last error changed. A status below done with bytes remaining stores the
  inflate error; status done with bytes remaining stores the not-enough-data error; a
  status other than done with no bytes remaining stores the too-much-data error; in the
  two other cases the stored error stays. The stored error is what the error query reads.
\<close>

theorem deflated_data_records_errors:
  assumes loop: "inflate_loop tgt data_buf len (TINFL_STATUS_NEEDS_MORE_INPUT tgt) s
                 = Some (status, s1)"
  shows "\<exists>s'. handle_flash_deflated_data tgt data_buf len s = Some s'
     \<and> s' = s1\<lparr> last_error := get_flash_error s' \<rparr>
     \<and> remaining s' = remaining s1
     \<and> (status < TINFL_STATUS_DONE tgt \<and> 0 < remaining s' \<longrightarrow>
           get_flash_error s' = ESP_INFLATE_ERROR)
     \<and> (status = TINFL_STATUS_DONE tgt \<and> 0 < remaining s' \<longrightarrow>
           get_flash_error s' = ESP_NOT_ENOUGH_DATA)
     \<and> (status \<noteq> TINFL_STATUS_DONE tgt \<and> remaining s' = 0 \<longrightarrow>
           get_flash_error s' = ESP_TOO_MUCH_DATA)
     \<and> (TINFL_STATUS_DONE tgt < status \<and> 0 < remaining s' \<longrightarrow>
           get_flash_error s' = get_flash_error s1)
     \<and> (status = TINFL_STATUS_DONE tgt \<and> remaining s' = 0 \<longrightarrow>
           get_flash_error s' = get_flash_error s1)"
proof -
  have "handle_flash_deflated_data tgt data_buf len s
        = Some (inflate_status_check tgt status s1)"
    by (simp add: handle_flash_deflated_data_def loop)
  then show ?thesis
    by (auto simp: inflate_status_check_cases get_flash_error_def word_greater_zero_iff)
qed

lemmas inflate_defs = inflate_loop.simps inflate_round_def copy_decompress_def
  handle_flash_data_def scheduler_defs handle_flash_deflated_begin_def demo_defs Let_def

theorem deflated_data_records_errors_witness:
  "map_option get_flash_error
     (handle_flash_deflated_data
        (demo_target\<lparr> tinfl_decompress := (\<lambda>r i n ob on oa f.
            \<lparr> tr_status = - 1, tr_in_bytes = 0, tr_out_bytes = 0, tr_inflator = r,
              tr_out_buf = ob \<rparr>) \<rparr>)
        [1, 2, 3] 3 (snd (handle_flash_deflated_begin demo_target 8 3 0 power_on)))
     = Some ESP_INFLATE_ERROR
   \<and> map_option get_flash_error
       (handle_flash_deflated_data demo_target [1, 2, 3] 3
          (snd (handle_flash_deflated_begin demo_target 8 3 0 power_on)))
     = Some ESP_NOT_ENOUGH_DATA
   \<and> map_option get_flash_error
       (handle_flash_deflated_data demo_target [1, 2, 3] 3
          (snd (handle_flash_deflated_begin demo_target 0 3 0 power_on)))
     = Some ESP_TOO_MUCH_DATA
   \<and> map_option get_flash_error
       (handle_flash_deflated_data demo_target [1, 2, 3] 3
          (snd (handle_flash_deflated_begin demo_target 3 3 0 power_on)))
     = Some ESP_OK"
proof -
  let ?bad = "demo_target\<lparr> tinfl_decompress := (\<lambda>r i n ob on oa f.
            \<lparr> tr_status = - 1, tr_in_bytes = 0, tr_out_bytes = 0, tr_inflator = r,
              tr_out_buf = ob \<rparr>) \<rparr>"
  let ?a = "snd (handle_flash_deflated_begin demo_target 8 3 0 power_on)"
  let ?c = "snd (handle_flash_deflated_begin demo_target 0 3 0 power_on)"
  let ?d = "snd (handle_flash_deflated_begin demo_target 3 3 0 power_on)"
  have k: "TINFL_STATUS_NEEDS_MORE_INPUT demo_target = 1" "TINFL_STATUS_DONE demo_target = 0"
    "TINFL_STATUS_NEEDS_MORE_INPUT ?bad = 1" "TINFL_STATUS_DONE ?bad = 0"
    by (simp_all add: demo_target_def)
  have "inflate_loop ?bad [1, 2, 3] 3 1 ?a \<noteq> None"
    by (simp add: inflate_defs)
  then obtain st1 x1 where 1: "inflate_loop ?bad [1, 2, 3] 3 1 ?a = Some (st1, x1)" by auto
  have p1: "st1 = - 1" "remaining x1 = 8" "last_error x1 = ESP_OK"
    using 1 by (auto simp: inflate_defs)
  have "inflate_loop demo_target [1, 2, 3] 3 1 ?a \<noteq> None"
    by (simp add: inflate_defs)
  then obtain st2 x2 where 2: "inflate_loop demo_target [1, 2, 3] 3 1 ?a = Some (st2, x2)"
    by auto
  have p2: "st2 = 0" "remaining x2 = 5" "last_error x2 = ESP_OK"
    using 2 by (auto simp: inflate_defs)
  have "inflate_loop demo_target [1, 2, 3] 3 1 ?c \<noteq> None"
    by (simp add: inflate_defs)
  then obtain st3 x3 where 3: "inflate_loop demo_target [1, 2, 3] 3 1 ?c = Some (st3, x3)"
    by auto
  have p3: "st3 = 1" "remaining x3 = 0" "last_error x3 = ESP_OK"
    using 3 by (auto simp: inflate_defs)
  have "inflate_loop demo_target [1, 2, 3] 3 1 ?d \<noteq> None"
    by (simp add: inflate_defs)
  then obtain st4 x4 where 4: "inflate_loop demo_target [1, 2, 3] 3 1 ?d = Some (st4, x4)"
    by auto
  have p4: "st4 = 0" "remaining x4 = 0" "last_error x4 = ESP_OK"
    using 4 by (auto simp: inflate_defs)
  from deflated_data_records_errors [of ?bad "[1, 2, 3]" 3 ?a st1 x1] 1 p1 k
  have r1: "map_option get_flash_error (handle_flash_deflated_data ?bad [1, 2, 3] 3 ?a)
            = Some ESP_INFLATE_ERROR"
    by (auto simp: get_flash_error_def word_greater_zero_iff)
  from deflated_data_records_errors [of demo_target "[1, 2, 3]" 3 ?a st2 x2] 2 p2 k
  have r2: "map_option get_flash_error (handle_flash_deflated_data demo_target [1, 2, 3] 3 ?a)
            = Some ESP_NOT_ENOUGH_DATA"
    by (auto simp: get_flash_error_def word_greater_zero_iff)
  from deflated_data_records_errors [of demo_target "[1, 2, 3]" 3 ?c st3 x3] 3 p3 k
  have r3: "map_option get_flash_error (handle_flash_deflated_data demo_target [1, 2, 3] 3 ?c)
            = Some ESP_TOO_MUCH_DATA"
    by (auto simp: get_flash_error_def word_greater_zero_iff)
  from deflated_data_records_errors [of demo_target "[1, 2, 3]" 3 ?d st4 x4] 4 p4 k
  have r4: "map_option get_flash_error (handle_flash_deflated_data demo_target [1, 2, 3] 3 ?d)
            = Some ESP_OK"
    by (auto simp: get_flash_error_def word_greater_zero_iff)
  show ?thesis using r1 r2 r3 r4 by simp
qed

section \<open>The stored error\<close>

lemma last_error_kept:
  "kept_by_data_path tgt (\<lambda>s. last_error s \<noteq> ESP_OK)"
  by (simp add: kept_by_data_path_def start_next_erase_frame)

text \<open>
  C9: once the stored error is not OK it is not OK after any sequence of data calls,
  compressed data calls, end calls and scheduler invocations (the two queries only read
  the state). A begin, plain or compressed, stores OK.
\<close>

theorem last_error_sticky:
  assumes err: "get_flash_error s \<noteq> ESP_OK"
    and sess: "in_session tgt s s'"
  shows "get_flash_error s' \<noteq> ESP_OK
    \<and> get_flash_error (snd (handle_flash_begin tgt total_size offset s')) = ESP_OK
    \<and> get_flash_error
         (snd (handle_flash_deflated_begin tgt uncompressed_size compressed_size offset s'))
       = ESP_OK"
proof -
  have "last_error s' \<noteq> ESP_OK"
    by (rule in_session_keeps [OF last_error_kept _ sess]) (use err in \<open>simp_all add: get_flash_error_def\<close>)
  then show ?thesis
    by (simp add: get_flash_error_def handle_flash_begin_def handle_flash_deflated_begin_def
        Let_def split: prod.splits)
qed

theorem last_error_sticky_witness:
  "map_option get_flash_error
     (handle_flash_data (demo_target\<lparr> SPIWrite := (\<lambda>k. if k = 0 then 1 else 0) \<rparr>)
        (replicate 9000 0) 9000 (snd (handle_flash_begin demo_target 10000 0 power_on)))
   = Some ESP_FAILED_SPI_OP
   \<and> map_option get_flash_error
     (flash_data_calls (demo_target\<lparr> SPIWrite := (\<lambda>k. if k = 0 then 1 else 0) \<rparr>)
        [(replicate 9000 0, 9000), (replicate 1000 0, 1000)]
        (snd (handle_flash_begin demo_target 10000 0 power_on)))
   = Some ESP_FAILED_SPI_OP"
proof -
  let ?tgt = "demo_target\<lparr> SPIWrite := (\<lambda>k. if k = 0 then 1 else 0) \<rparr>"
  let ?s0 = "snd (handle_flash_begin demo_target 10000 0 power_on)"
  have "handle_flash_data ?tgt (replicate 9000 0) 9000 ?s0 \<noteq> None"
    by (simp add: handle_flash_data_def scheduler_defs demo_defs Let_def)
  then obtain s1 where 1: "handle_flash_data ?tgt (replicate 9000 0) 9000 ?s0 = Some s1"
    by auto
  have p1: "last_error s1 = ESP_FAILED_SPI_OP" "next_write s1 = 9000" "next_erase_sector s1 = 3"
    using 1 by (auto simp add: handle_flash_data_def scheduler_defs demo_defs Let_def)
  have "handle_flash_data ?tgt (replicate 1000 0) 1000 s1 \<noteq> None"
    by (simp add: handle_flash_data_def erase_ahead.simps p1 demo_target_def)
  then obtain s2 where 2: "handle_flash_data ?tgt (replicate 1000 0) 1000 s1 = Some s2"
    by auto
  have err: "get_flash_error s1 \<noteq> ESP_OK" by (simp add: get_flash_error_def p1)
  have sess: "in_session ?tgt s1 s2" by (rule in_session.data [OF in_session.begun 2])
  have only: "last_error s2 = ESP_FAILED_SPI_OP \<or> last_error s2 = last_error s1"
    using handle_flash_data_result(5) [OF 2] by simp
  from last_error_sticky [OF err sess] only
  have "get_flash_error s2 = ESP_FAILED_SPI_OP" by (simp add: get_flash_error_def p1)
  then show ?thesis by (simp add: 1 2 p1 get_flash_error_def)
qed

section \<open>Begin of a compressed session\<close>

text \<open>
  C8, on the code: a compressed begin resets the inflator and the compressed byte count
  on top of what plain begin sets, but the fill cursor of the output buffer is a static
  local of \<^verbatim>\<open>handle_flash_deflated_data\<close> and begin does not touch it. A session that
  stops after a chunk that left 3 decompressed bytes in the buffer hands the cursor at 3
  to the next session, whose first flush then writes those 3 bytes ahead of its own 2 and
  counts all 5 against its declared size of 2.
\<close>

theorem deflated_begin_keeps_fill_cursor:
  "next_out (snd (handle_flash_deflated_begin tgt uncompressed_size compressed_size offset s))
     = next_out s
   \<and> inflator (snd (handle_flash_deflated_begin tgt uncompressed_size compressed_size offset s))
     = tinfl_init tgt
   \<and> remaining_compressed
       (snd (handle_flash_deflated_begin tgt uncompressed_size compressed_size offset s))
     = compressed_size
   \<and> map_option next_out
       (handle_flash_deflated_data demo_target [1, 2, 3] 3
          (snd (handle_flash_deflated_begin demo_target 8 8 0 power_on)))
     = Some 3
   \<and> map_option (\<lambda>s. (write_log s, remaining s))
       (Option.bind
          (handle_flash_deflated_data demo_target [1, 2, 3] 3
             (snd (handle_flash_deflated_begin demo_target 8 8 0 power_on)))
          (\<lambda>aborted. handle_flash_deflated_data demo_target [9, 9] 2
             (snd (handle_flash_deflated_begin demo_target 2 2 0 aborted))))
     = Some ([(0, [1, 2, 3, 9, 9], 5)], 0xFFFFFFFD)"
proof -
  let ?a = "snd (handle_flash_deflated_begin demo_target 8 8 0 power_on)"
  have 1: "handle_flash_deflated_data demo_target [1, 2, 3] 3 ?a
           = Some (?a\<lparr> inflator := 3, out_buf := [1, 2, 3] @ replicate 32765 0,
                       remaining_compressed := 5, next_out := 3,
                       remaining_erase_sector := 0, next_erase_sector := 1,
                       status_polls := 1,
                       erase_log := [\<lparr> eo_command = SPI_FLASH_SE, eo_addr = 0,
                                       eo_sector = 0, eo_count = 1 \<rparr>] \<rparr>)"
    by (simp add: handle_flash_deflated_data_def inflate_status_check_def inflate_defs)
  show ?thesis
    apply (intro conjI)
        apply (simp add: handle_flash_deflated_begin_def handle_flash_begin_def Let_def)
       apply (simp add: handle_flash_deflated_begin_def handle_flash_begin_def Let_def)
      apply (simp add: handle_flash_deflated_begin_def handle_flash_begin_def Let_def)
     apply (simp add: 1)
    apply (simp add: 1)
    apply (simp add: handle_flash_deflated_data_def inflate_status_check_def inflate_defs)
    done
qed

end
